theory Spec2Isabelle
  imports Complex_Main "HOL-Library.Word"
begin

unbundle bit_operations_syntax

section \<open>Numeric conventions\<close>

text \<open>
  The firmware runs on a 32-bit target: \<open>int16_t\<close> and \<open>uint16_t\<close> are \<open>16 word\<close>
  (signed reading \<open>sint\<close>, unsigned reading \<open>unat\<close>, the word order is the unsigned one),
  \<open>uint8_t\<close> is \<open>8 word\<close>, \<open>unsigned long\<close> and flash addresses are \<open>32 word\<close>.
  The C \<open>int\<close> arguments (note numbers, velocities, the loop counters) never overflow on
  the paths modelled here and are \<open>int\<close> or \<open>nat\<close>.

  A \<open>float\<close> is modelled by the real number it denotes; infinities and NaN are not
  modelled. In the synthesizer the float operations \<open>+\<close>, \<open>*\<close>, \<open>/\<close> and \<open>powf\<close> are
  modelled by the exact real operations. In the timing arithmetic of the player every
  float operation is the exact operation followed by \<open>fl32\<close>, the rounding of IEEE single
  precision defined below. \<open>roundf\<close> rounds to the nearest integer, halfway cases away
  from zero; the model returns that integer as an \<open>int\<close>, and the C cast of the result to
  an integer type is \<open>word_of_int\<close>. (The cast of a value outside the range of the
  integer type is undefined in C and wraps around in the model; the amplitudes and the
  half periods of positive note numbers are always in range.)
\<close>

definition roundf :: "real \<Rightarrow> int" where
  "roundf x = (if 0 \<le> x then \<lfloor>x + 1 / 2\<rfloor> else - \<lfloor>- x + 1 / 2\<rfloor>)"

text \<open>
  IEEE single precision, round to nearest, ties to even: a real \<open>x\<close> with
  \<open>2 powi e \<le> \<bar>x\<bar> < 2 powi (e + 1)\<close> is rounded to a multiple of \<open>2 powi (e - 23)\<close> (24
  significant bits), and below the smallest normal number \<open>2 powi (- 126)\<close> to a multiple of
  \<open>2 powi (- 149)\<close>. A result beyond the largest float, which the hardware turns into an
  infinity, is not modelled: the theorems about the timing arithmetic assume a tempo for
  which no operation overflows.
\<close>

definition round_even :: "real \<Rightarrow> int" where
  "round_even x =
     (let f = \<lfloor>x\<rfloor>; d = x - real_of_int f
      in if d < 1 / 2 then f
         else if 1 / 2 < d then f + 1
         else if even f then f else f + 1)"

definition fl32 :: "real \<Rightarrow> real" where
  "fl32 x =
     (if x = 0 then 0
      else let e = max \<lfloor>log 2 \<bar>x\<bar>\<rfloor> (- 126);
               q = 2 powi (e - 23)
           in real_of_int (round_even (x / q)) * q)"

text \<open>Arduino's \<open>constrain(amt, low, high)\<close> macro.\<close>

definition constrain :: "int \<Rightarrow> int \<Rightarrow> int \<Rightarrow> int" where
  "constrain amt low high = (if amt < low then low else if amt > high then high else amt)"

section \<open>Synthesizer.h: configuration constants and the voice state\<close>

abbreviation (input) SYNTH_SAMPLE_RATE :: int where "SYNTH_SAMPLE_RATE \<equiv> 44100"
abbreviation (input) SYNTH_MAX_VOICES :: nat where "SYNTH_MAX_VOICES \<equiv> 8"
abbreviation (input) SYNTH_MAX_NOTE_AMPLITUDE :: int where "SYNTH_MAX_NOTE_AMPLITUDE \<equiv> 16000"
abbreviation (input) SYNTH_MAX_OUTPUT_AMPLITUDE :: int where "SYNTH_MAX_OUTPUT_AMPLITUDE \<equiv> 32767"
abbreviation (input) SYNTH_MIN_OUTPUT_AMPLITUDE :: int where "SYNTH_MIN_OUTPUT_AMPLITUDE \<equiv> - 32768"
abbreviation (input) SYNTH_SILENCE_AMPLITUDE :: int where "SYNTH_SILENCE_AMPLITUDE \<equiv> 0"

record VoiceState =
  isActive :: bool
  midiNoteNumber :: int
  frequency :: real
  targetAmplitude :: "16 word"
  currentOutput :: "16 word"
  wavelength :: "16 word"
  timeAtLevelRemaining :: "16 word"

text \<open>
  The member \<open>voices[SYNTH_MAX_VOICES]\<close> is a list of voice states; every theorem about it
  assumes the list has \<open>SYNTH_MAX_VOICES\<close> elements. The mutex \<open>voicesMutex\<close> is taken with
  \<open>portMAX_DELAY\<close>, so each critical section is modelled as one atomic state transformer.
\<close>

type_synonym voice_pool = "VoiceState list"

text \<open>The default member initialisers of \<open>struct VoiceState\<close>.\<close>

definition default_VoiceState :: VoiceState where
  "default_VoiceState =
     \<lparr>isActive = False, midiNoteNumber = 0, frequency = 0, targetAmplitude = 0,
      currentOutput = 0, wavelength = 0, timeAtLevelRemaining = 0\<rparr>"

text \<open>
  Step 2 of \<open>Synthesizer::init\<close>, run on the freshly constructed object: every slot holds
  the default initialisers and the loop clears \<open>isActive\<close> in each of them.
\<close>

definition init_voices :: voice_pool where
  "init_voices =
     fold (\<lambda>i voices. voices[i := (voices ! i)\<lparr>isActive := False\<rparr>]) [0..<SYNTH_MAX_VOICES]
       (replicate SYNTH_MAX_VOICES default_VoiceState)"

section \<open>Synthesizer.cpp: private helpers\<close>

definition midiNoteToFrequency :: "int \<Rightarrow> real" where
  "midiNoteToFrequency midiNote =
     (if midiNote \<le> 0 then 0
      else 440 * 2 powr (real_of_int (midiNote - 69) / 12))"

definition velocityToAmplitude :: "int \<Rightarrow> 16 word" where
  "velocityToAmplitude velocity =
     (let velocity = constrain velocity 0 127;
          amp_f = (real_of_int velocity / 127) * real_of_int SYNTH_MAX_NOTE_AMPLITUDE
      in word_of_int (roundf amp_f))"

definition calculate_wavelength :: "real \<Rightarrow> 16 word" where
  "calculate_wavelength freq =
     (if freq \<le> 0 then 0
      else let samples_per_half_cycle_f = real_of_int SYNTH_SAMPLE_RATE / (freq * 2);
               wl = (word_of_int (roundf samples_per_half_cycle_f) :: 16 word)
           in if wl < 1 then 1 else wl)"

text \<open>
  The two linear scans return the first matching index; \<open>None\<close> stands for the \<open>-1\<close> of the
  source.
\<close>

definition findFreeVoice_unsafe :: "voice_pool \<Rightarrow> nat option" where
  "findFreeVoice_unsafe voices =
     find (\<lambda>i. \<not> isActive (voices ! i)) [0..<SYNTH_MAX_VOICES]"

definition findVoicePlayingNote_unsafe :: "voice_pool \<Rightarrow> int \<Rightarrow> nat option" where
  "findVoicePlayingNote_unsafe voices note =
     find (\<lambda>i. isActive (voices ! i) \<and> midiNoteNumber (voices ! i) = note)
       [0..<SYNTH_MAX_VOICES]"

section \<open>Synthesizer.cpp: note control\<close>

text \<open>The two warnings \<open>startNote\<close> prints on the serial line.\<close>

datatype serial_line = Warning_cannot_start_note int | Warning_no_free_voices

definition startNote :: "int \<Rightarrow> int \<Rightarrow> voice_pool \<Rightarrow> voice_pool \<times> serial_line list" where
  "startNote noteNumber velocity voices0 =
     (let voices =
            (case findVoicePlayingNote_unsafe voices0 noteNumber of
               Some existingVoiceIndex \<Rightarrow>
                 voices0[existingVoiceIndex := (voices0 ! existingVoiceIndex)\<lparr>isActive := False\<rparr>]
             | None \<Rightarrow> voices0)
      in case findFreeVoice_unsafe voices of
           Some voiceIndex \<Rightarrow>
             (let v1 = (voices ! voiceIndex)
                         \<lparr>isActive := True,
                          midiNoteNumber := noteNumber,
                          frequency := midiNoteToFrequency noteNumber,
                          targetAmplitude := velocityToAmplitude velocity\<rparr>;
                  v2 = v1\<lparr>wavelength := calculate_wavelength (frequency v1)\<rparr>
              in if 0 < wavelength v2 \<and> targetAmplitude v2 \<noteq> 0
                 then (voices[voiceIndex :=
                         v2\<lparr>currentOutput := targetAmplitude v2,
                            timeAtLevelRemaining := wavelength v2\<rparr>], [])
                 else (voices[voiceIndex := v2\<lparr>isActive := False\<rparr>],
                       [Warning_cannot_start_note noteNumber]))
         | None \<Rightarrow> (voices, [Warning_no_free_voices]))"

definition stopNote :: "int \<Rightarrow> voice_pool \<Rightarrow> voice_pool" where
  "stopNote noteNumber voices =
     (case findVoicePlayingNote_unsafe voices noteNumber of
        Some voiceIndex \<Rightarrow>
          voices[voiceIndex := (voices ! voiceIndex)\<lparr>isActive := False, currentOutput := 0\<rparr>]
      | None \<Rightarrow> voices)"

section \<open>Synthesizer.cpp: one iteration of the audio task\<close>

text \<open>
  The square-wave update of one active voice (the two consecutive \<open>if\<close> statements of the
  loop body): the reload at zero is followed, in the same iteration, by the guarded
  decrement.
\<close>

definition update_square_wave :: "VoiceState \<Rightarrow> VoiceState" where
  "update_square_wave voice =
     (let voice =
            (if timeAtLevelRemaining voice = 0
             then voice\<lparr>currentOutput :=
                          (if currentOutput voice = targetAmplitude voice
                           then - targetAmplitude voice else targetAmplitude voice),
                        timeAtLevelRemaining := wavelength voice\<rparr>
             else voice)
      in if 0 < timeAtLevelRemaining voice
         then voice\<lparr>timeAtLevelRemaining := timeAtLevelRemaining voice - 1\<rparr>
         else voice)"

text \<open>
  The body of the \<open>for\<close> loop over the slots, on the triple of the voice table,
  \<open>summedSample_raw\<close> and \<open>activeVoiceCount\<close>. The sum is an \<open>int32_t\<close> of at most eight
  sign-extended 16-bit values and cannot overflow.
\<close>

definition voice_loop_body :: "nat \<Rightarrow> voice_pool \<times> int \<times> int \<Rightarrow> voice_pool \<times> int \<times> int" where
  "voice_loop_body i st =
     (case st of (voices, summedSample_raw, activeVoiceCount) \<Rightarrow>
        if isActive (voices ! i)
        then (let voice = update_square_wave (voices ! i)
              in (voices[i := voice],
                  summedSample_raw + sint (currentOutput voice),
                  activeVoiceCount + 1))
        else (voices, summedSample_raw, activeVoiceCount))"

text \<open>Mix, scale, clamp: the value handed to \<open>send_sample_to_i2s\<close>.\<close>

definition mix_sample :: "int \<Rightarrow> int \<Rightarrow> 16 word" where
  "mix_sample summedSample_raw activeVoiceCount =
     (if 0 < activeVoiceCount
      then (let mixedSample_f = real_of_int summedSample_raw / real_of_int activeVoiceCount
            in if mixedSample_f > real_of_int SYNTH_MAX_OUTPUT_AMPLITUDE
               then word_of_int SYNTH_MAX_OUTPUT_AMPLITUDE
               else if mixedSample_f < real_of_int SYNTH_MIN_OUTPUT_AMPLITUDE
               then word_of_int SYNTH_MIN_OUTPUT_AMPLITUDE
               else word_of_int (roundf mixedSample_f))
      else word_of_int SYNTH_SILENCE_AMPLITUDE)"

text \<open>
  One pass of the \<open>while (true)\<close> loop of \<open>audioTaskRunner\<close>: the new voice table and
  \<open>finalSample\<close>.
\<close>

definition audioTaskRunner_iteration :: "voice_pool \<Rightarrow> voice_pool \<times> 16 word" where
  "audioTaskRunner_iteration voices0 =
     (case fold voice_loop_body [0..<SYNTH_MAX_VOICES] (voices0, 0, 0) of
        (voices, summedSample_raw, activeVoiceCount) \<Rightarrow>
          (voices, mix_sample summedSample_raw activeVoiceCount))"

section \<open>Histories of the voice table\<close>

text \<open>
  The control context and the audio task touch the table only inside their critical
  sections, so every state of the table is the result of a finite interleaving of the
  three critical sections, started from the initialised table.
\<close>

datatype synth_call = StartNote int int | StopNote int | AudioIteration

fun run_call :: "synth_call \<Rightarrow> voice_pool \<Rightarrow> voice_pool" where
  "run_call (StartNote noteNumber velocity) voices = fst (startNote noteNumber velocity voices)"
| "run_call (StopNote noteNumber) voices = stopNote noteNumber voices"
| "run_call AudioIteration voices = fst (audioTaskRunner_iteration voices)"

definition run_calls :: "synth_call list \<Rightarrow> voice_pool" where
  "run_calls calls = fold run_call calls init_voices"

section \<open>SongData.h and the flash\<close>

text \<open>
  The song data lives in flash and is read with the \<open>pgm_read\<close> primitives: the flash is a
  total map from 32-bit addresses to bytes, and a pointer into it is its address, the null
  pointer being address 0.
\<close>

type_synonym progmem = "32 word \<Rightarrow> 8 word"

text \<open>
  Modelled from the spec: \<open>SongData.h\<close>, which declares \<open>struct SongInfo\<close>, is not among the
  sources. The spec describes a song as a flash-resident record of the base address of an
  event array, the event count (16-bit unsigned) and the tempo in beats per minute (a
  32-bit float); the field names are the ones \<open>loadSong\<close> reads. A \<open>const SongInfo*\<close> is a
  \<open>SongInfo option\<close>, \<open>None\<close> being \<open>nullptr\<close>.
\<close>

record SongInfo =
  midi_data_ptr :: "32 word"
  event_count :: "16 word"
  bpm :: real

section \<open>MidiPlayer.h\<close>

abbreviation (input) BYTES_PER_EVENT :: nat where "BYTES_PER_EVENT \<equiv> 6"
abbreviation (input) TICKS_PER_QUARTER_NOTE :: nat where "TICKS_PER_QUARTER_NOTE \<equiv> 96"

text \<open>
  The member \<open>synth\<close> points to the one synthesizer of the sketch or is null: the field
  says whether it is set, and the voice table of that synthesizer is passed to the functions
  that reach it. \<open>millis()\<close> is an argument of the functions that read the clock. The
  diagnostics the player prints are not modelled.
\<close>

record MidiPlayer =
  synth :: bool
  current_song_data_ptr :: "32 word"
  current_event_count :: "16 word"
  current_bpm :: real
  is_playing :: bool
  current_event_index :: "16 word"
  next_event_time_ms :: "32 word"
  millis_per_tick :: real

section \<open>The player\<close>

text \<open>The member functions of \<open>MidiPlayer\<close>, from \<^verbatim>\<open>src/unnamed/part_000\<close>.\<close>

definition MidiPlayer_new :: MidiPlayer where
  "MidiPlayer_new =
     \<lparr>synth = False, current_song_data_ptr = 0, current_event_count = 0, current_bpm = 0,
      is_playing = False, current_event_index = 0, next_event_time_ms = 0,
      millis_per_tick = 0\<rparr>"

definition init :: "MidiPlayer \<Rightarrow> MidiPlayer" where
  "init p = p\<lparr>synth := True, is_playing := False\<rparr>"

text \<open>
  The three divisions of \<open>calculateTimingFactors\<close> and the product of
  \<open>convertTicksToMillis\<close> are single-precision operations; the constants and the 16-bit
  tick count are floats exactly.
\<close>

definition calculateTimingFactors :: "real \<Rightarrow> MidiPlayer \<Rightarrow> MidiPlayer" where
  "calculateTimingFactors bpm0 p =
     (let bpm1 = (if bpm0 \<le> 0 then 120 else bpm0);
          microseconds_per_quarter_note = fl32 (60000000 / bpm1)
      in if 0 < TICKS_PER_QUARTER_NOTE
         then p\<lparr>millis_per_tick :=
                  fl32 (fl32 (microseconds_per_quarter_note / 1000) /
                        real TICKS_PER_QUARTER_NOTE)\<rparr>
         else p\<lparr>millis_per_tick := 0\<rparr>)"

definition convertTicksToMillis :: "16 word \<Rightarrow> MidiPlayer \<Rightarrow> 32 word" where
  "convertTicksToMillis ticks p =
     word_of_int (roundf (fl32 (real (unat ticks) * millis_per_tick p)))"

definition pgm_read_uint16_big_endian :: "progmem \<Rightarrow> 32 word \<Rightarrow> 16 word" where
  "pgm_read_uint16_big_endian flash flash_address =
     (let highByte = flash flash_address;
          lowByte = flash (flash_address + 1)
      in push_bit 8 (ucast highByte) OR ucast lowByte)"

text \<open>The address of the event at the current index.\<close>

definition current_event_address :: "MidiPlayer \<Rightarrow> 32 word" where
  "current_event_address p =
     current_song_data_ptr p + ucast (current_event_index p) * of_nat BYTES_PER_EVENT"

definition loadSong :: "SongInfo option \<Rightarrow> MidiPlayer \<Rightarrow> bool \<times> MidiPlayer" where
  "loadSong song_info_progmem_addr p0 =
     (case song_info_progmem_addr of
        None \<Rightarrow> (False, p0)
      | Some song \<Rightarrow>
          (let p1 = p0\<lparr>current_song_data_ptr := midi_data_ptr song,
                       current_event_count := event_count song,
                       current_bpm := bpm song\<rparr>
           in if current_song_data_ptr p1 = 0 \<or> current_event_count p1 = 0
              then (False, p1\<lparr>current_song_data_ptr := 0, current_event_count := 0\<rparr>)
              else (let p2 = calculateTimingFactors (current_bpm p1) p1
                    in (True, p2\<lparr>is_playing := False, current_event_index := 0,
                                  next_event_time_ms := 0\<rparr>))))"

definition start :: "progmem \<Rightarrow> 32 word \<Rightarrow> MidiPlayer \<Rightarrow> MidiPlayer" where
  "start flash now p0 =
     (if is_playing p0 then p0
      else if current_event_count p0 = 0 \<or> current_song_data_ptr p0 = 0 then p0
      else (let p1 = p0\<lparr>current_event_index := 0, is_playing := True\<rparr>;
                delta_ticks = pgm_read_uint16_big_endian flash (current_song_data_ptr p1);
                delta_ms = convertTicksToMillis delta_ticks p1
            in p1\<lparr>next_event_time_ms := now + delta_ms\<rparr>))"

definition stop :: "MidiPlayer \<Rightarrow> MidiPlayer" where
  "stop p = (if \<not> is_playing p then p else p\<lparr>is_playing := False\<rparr>)"

definition processCurrentEvent :: "progmem \<Rightarrow> MidiPlayer \<Rightarrow> voice_pool \<Rightarrow> voice_pool" where
  "processCurrentEvent flash p voices =
     (if \<not> synth p then voices
      else (let event_type = flash (current_event_address p + 2);
                note_number = flash (current_event_address p + 3);
                velocity = flash (current_event_address p + 4)
            in if event_type = 1
               then (if 0 < velocity
                     then fst (startNote (uint note_number) (uint velocity) voices)
                     else stopNote (uint note_number) voices)
               else if event_type = 0
               then stopNote (uint note_number) voices
               else voices))"

definition scheduleNextEvent :: "progmem \<Rightarrow> 32 word \<Rightarrow> MidiPlayer \<Rightarrow> MidiPlayer" where
  "scheduleNextEvent flash current_processing_time_ms p =
     (if current_event_index p < current_event_count p
      then (let next_delta_ticks = pgm_read_uint16_big_endian flash (current_event_address p);
                next_delta_ms = convertTicksToMillis next_delta_ticks p
            in p\<lparr>next_event_time_ms := current_processing_time_ms + next_delta_ms\<rparr>)
      else p)"

text \<open>
  \<open>update\<close> returns its boolean result, the new player and the new voice table;
  \<open>current_time_ms\<close> is the value \<open>millis()\<close> returns in the call.
\<close>

definition update :: "progmem \<Rightarrow> 32 word \<Rightarrow> MidiPlayer \<Rightarrow> voice_pool \<Rightarrow> bool \<times> MidiPlayer \<times> voice_pool" where
  "update flash current_time_ms p0 voices =
     (if \<not> is_playing p0 then (False, p0, voices)
      else if current_time_ms \<ge> next_event_time_ms p0
      then (if current_event_index p0 \<ge> current_event_count p0
            then (False, p0\<lparr>is_playing := False\<rparr>, voices)
            else (let voices1 = processCurrentEvent flash p0 voices;
                      p1 = p0\<lparr>current_event_index := current_event_index p0 + 1\<rparr>;
                      p2 = scheduleNextEvent flash current_time_ms p1
                  in (is_playing p2, p2, voices1)))
      else (is_playing p0, p0, voices))"

section \<open>Auxiliary notions for the proofs\<close>

text \<open>
  The two halves of \<open>startNote\<close>, named for the proofs: the release of a voice that already
  plays the note, and the value written to the slot that is claimed (with the validity
  test of the source reduced to its meaning, see \<open>startNote_unfold\<close>).
\<close>

definition startNote_release :: "int \<Rightarrow> voice_pool \<Rightarrow> voice_pool" where
  "startNote_release noteNumber voices0 =
     (case findVoicePlayingNote_unsafe voices0 noteNumber of
        Some existingVoiceIndex \<Rightarrow>
          voices0[existingVoiceIndex := (voices0 ! existingVoiceIndex)\<lparr>isActive := False\<rparr>]
      | None \<Rightarrow> voices0)"

definition startNote_claim :: "int \<Rightarrow> int \<Rightarrow> VoiceState \<Rightarrow> VoiceState" where
  "startNote_claim noteNumber velocity slot =
     (let v2 = slot\<lparr>isActive := True,
                    midiNoteNumber := noteNumber,
                    frequency := midiNoteToFrequency noteNumber,
                    targetAmplitude := velocityToAmplitude velocity,
                    wavelength := calculate_wavelength (midiNoteToFrequency noteNumber)\<rparr>
      in if 0 < noteNumber \<and> 0 < velocity
         then v2\<lparr>currentOutput := targetAmplitude v2, timeAtLevelRemaining := wavelength v2\<rparr>
         else v2\<lparr>isActive := False\<rparr>)"

text \<open>
  Invariants of the voice table: no two active voices play the same note, every active
  voice plays a positive note number, and the amplitudes stay within the per-voice
  maximum.
\<close>

definition notes_unique :: "voice_pool \<Rightarrow> bool" where
  "notes_unique voices \<longleftrightarrow>
     (\<forall>i<SYNTH_MAX_VOICES. \<forall>j<SYNTH_MAX_VOICES.
        isActive (voices ! i) \<and> isActive (voices ! j) \<and>
        midiNoteNumber (voices ! i) = midiNoteNumber (voices ! j) \<longrightarrow> i = j)"

definition active_notes_positive :: "voice_pool \<Rightarrow> bool" where
  "active_notes_positive voices \<longleftrightarrow>
     (\<forall>i<SYNTH_MAX_VOICES. isActive (voices ! i) \<longrightarrow> 0 < midiNoteNumber (voices ! i))"

definition amplitude_bounded :: "VoiceState \<Rightarrow> bool" where
  "amplitude_bounded v \<longleftrightarrow>
     0 \<le> sint (targetAmplitude v) \<and> sint (targetAmplitude v) \<le> SYNTH_MAX_NOTE_AMPLITUDE \<and>
     \<bar>sint (currentOutput v)\<bar> \<le> SYNTH_MAX_NOTE_AMPLITUDE"

definition voices_inv :: "voice_pool \<Rightarrow> bool" where
  "voices_inv voices \<longleftrightarrow>
     length voices = SYNTH_MAX_VOICES \<and> notes_unique voices \<and> active_notes_positive voices \<and>
     (\<forall>i<SYNTH_MAX_VOICES. amplitude_bounded (voices ! i))"

section \<open>Concrete voice tables, songs and sessions for the worked examples\<close>

text \<open>
  A table whose slot 0 plays note 69 (half period 50 samples, amplitude of velocity 8) and
  has just counted its first half period down to zero, and the tables on the way there,
  with the countdown at \<open>t\<close>.
\<close>

definition one_voice_table :: voice_pool where
  "one_voice_table =
     (replicate SYNTH_MAX_VOICES default_VoiceState)
       [0 := \<lparr>isActive = True, midiNoteNumber = 69, frequency = 440, targetAmplitude = 1008,
              currentOutput = 1008, wavelength = 50, timeAtLevelRemaining = 0\<rparr>]"

text \<open>A full table: eight voices playing the notes 60 to 67 at velocity 100.\<close>

definition full_table :: voice_pool where
  "full_table =
     map (\<lambda>k. \<lparr>isActive = True, midiNoteNumber = 60 + int k,
               frequency = midiNoteToFrequency (60 + int k),
               targetAmplitude = velocityToAmplitude 100,
               currentOutput = velocityToAmplitude 100,
               wavelength = calculate_wavelength (midiNoteToFrequency (60 + int k)),
               timeAtLevelRemaining = calculate_wavelength (midiNoteToFrequency (60 + int k))\<rparr>)
       [0..<SYNTH_MAX_VOICES]"

text \<open>
  The table after note-on 60, note-on 62, note-off 60 (all at velocity 100): slot 0 is
  free again and slot 1 plays note 62.
\<close>

definition retrigger_table :: voice_pool where
  "retrigger_table =
     (replicate SYNTH_MAX_VOICES default_VoiceState)
       [0 := \<lparr>isActive = False, midiNoteNumber = 60, frequency = midiNoteToFrequency 60,
              targetAmplitude = velocityToAmplitude 100, currentOutput = 0,
              wavelength = calculate_wavelength (midiNoteToFrequency 60),
              timeAtLevelRemaining = calculate_wavelength (midiNoteToFrequency 60)\<rparr>,
        1 := \<lparr>isActive = True, midiNoteNumber = 62, frequency = midiNoteToFrequency 62,
              targetAmplitude = velocityToAmplitude 100,
              currentOutput = velocityToAmplitude 100,
              wavelength = calculate_wavelength (midiNoteToFrequency 62),
              timeAtLevelRemaining = calculate_wavelength (midiNoteToFrequency 62)\<rparr>]"

text \<open>
  The deterministic scenario of the spec: a song of two events at 120 beats per minute,
  \<open>{delta 96, note-on 60, velocity 100}\<close> and \<open>{delta 48, note-off 60}\<close>, stored at
  address \<open>0x3F400000\<close>; the player that has loaded it and was started at time 1000; and
  the same flash with the kind byte of the first event overwritten by the unknown kind 2.
\<close>

definition example_flash :: progmem where
  "example_flash =
     (\<lambda>a. 0)
       (0x3F400000 := 0, 0x3F400001 := 96, 0x3F400002 := 1, 0x3F400003 := 60, 0x3F400004 := 100,
        0x3F400005 := 0,
        0x3F400006 := 0, 0x3F400007 := 48, 0x3F400008 := 0, 0x3F400009 := 60, 0x3F40000A := 0,
        0x3F40000B := 0)"

definition example_song :: SongInfo where
  "example_song = \<lparr>midi_data_ptr = 0x3F400000, event_count = 2, bpm = 120\<rparr>"

definition example_player :: MidiPlayer where
  "example_player =
     \<lparr>synth = True, current_song_data_ptr = 0x3F400000, current_event_count = 2,
      current_bpm = 120, is_playing = True, current_event_index = 0,
      next_event_time_ms = 1500, millis_per_tick = 10922667 / 2097152\<rparr>"

definition unknown_kind_flash :: progmem where
  "unknown_kind_flash = example_flash(0x3F400002 := 2)"

text \<open>
  Two variants of the flash whose first event is for note 62: a note-on with velocity 0,
  and a note-off (with release velocity 64).
\<close>

definition note_on_zero_flash :: progmem where
  "note_on_zero_flash =
     example_flash(0x3F400002 := 1, 0x3F400003 := 62, 0x3F400004 := 0)"

definition note_off_flash :: progmem where
  "note_off_flash =
     example_flash(0x3F400002 := 0, 0x3F400003 := 62, 0x3F400004 := 64)"

text \<open>
  The player after a successful load of the example song, and a song record with a valid
  data address but no events.
\<close>

definition loaded_player :: MidiPlayer where
  "loaded_player = snd (loadSong (Some example_song) (init MidiPlayer_new))"

definition empty_song :: SongInfo where
  "empty_song = \<lparr>midi_data_ptr = 0x3F400100, event_count = 0, bpm = 90\<rparr>"

definition countdown_table :: "16 word \<Rightarrow> voice_pool" where
  "countdown_table t =
     (replicate SYNTH_MAX_VOICES default_VoiceState)
       [0 := \<lparr>isActive = True, midiNoteNumber = 69, frequency = 440, targetAmplitude = 1008,
              currentOutput = 1008, wavelength = 50, timeAtLevelRemaining = t\<rparr>]"

text \<open>
  A song of three events at 150 beats per minute with the delta times 96, 15 and 3, the
  player that has loaded it and was started at time 1100, and that player after its
  first event.
\<close>

definition fast_flash :: progmem where
  "fast_flash =
     (\<lambda>a. 0)
       (0x3F400000 := 0, 0x3F400001 := 96, 0x3F400002 := 1, 0x3F400003 := 60, 0x3F400004 := 100,
        0x3F400006 := 0, 0x3F400007 := 15, 0x3F400008 := 0, 0x3F400009 := 60, 0x3F40000A := 0,
        0x3F40000C := 0, 0x3F40000D := 3, 0x3F40000E := 1, 0x3F40000F := 64, 0x3F400010 := 90)"

definition fast_song :: SongInfo where
  "fast_song = \<lparr>midi_data_ptr = 0x3F400000, event_count = 3, bpm = 150\<rparr>"

definition fast_player :: MidiPlayer where
  "fast_player =
     \<lparr>synth = True, current_song_data_ptr = 0x3F400000, current_event_count = 3,
      current_bpm = 150, is_playing = True, current_event_index = 0,
      next_event_time_ms = 1500, millis_per_tick = 8738133 / 2097152\<rparr>"

definition fast_player_1 :: MidiPlayer where
  "fast_player_1 = fast_player\<lparr>current_event_index := 1, next_event_time_ms := 1562\<rparr>"

section \<open>The voice loop of the audio task as a function of the old table\<close>

lemma voice_loop_body_length:
  "length (fst (voice_loop_body i st)) = length (fst st)"
  by (cases st) (simp add: voice_loop_body_def Let_def)

lemma fold_voice_loop_body_length:
  "length (fst (fold voice_loop_body js st)) = length (fst st)"
  by (induction js arbitrary: st) (simp_all add: voice_loop_body_length)

lemma fold_voice_loop_body_nth:
  "distinct js \<Longrightarrow> \<forall>i\<in>set js. i < length voices \<Longrightarrow> j < length voices \<Longrightarrow>
   fst (fold voice_loop_body js (voices, s, c)) ! j =
     (if j \<in> set js \<and> isActive (voices ! j) then update_square_wave (voices ! j)
      else voices ! j)"
proof (induction js arbitrary: voices s c)
  case Nil
  then show ?case by simp
next
  case (Cons i js)
  show ?case
  proof (cases "isActive (voices ! i)")
    case True
    let ?vs = "voices[i := update_square_wave (voices ! i)]"
    have step: "voice_loop_body i (voices, s, c) =
        (?vs, s + sint (currentOutput (update_square_wave (voices ! i))), c + 1)"
      using True by (simp add: voice_loop_body_def Let_def)
    have "i \<notin> set js" using Cons.prems(1) by simp
    have IH: "fst (fold voice_loop_body js (?vs, s + sint (currentOutput (update_square_wave (voices ! i))), c + 1)) ! j =
        (if j \<in> set js \<and> isActive (?vs ! j) then update_square_wave (?vs ! j) else ?vs ! j)"
      using Cons.prems by (intro Cons.IH) simp_all
    show ?thesis
      using IH True \<open>i \<notin> set js\<close> Cons.prems(2,3)
      by (auto simp: step nth_list_update)
  next
    case False
    have step: "voice_loop_body i (voices, s, c) = (voices, s, c)"
      using False by (simp add: voice_loop_body_def)
    have IH: "fst (fold voice_loop_body js (voices, s, c)) ! j =
        (if j \<in> set js \<and> isActive (voices ! j) then update_square_wave (voices ! j) else voices ! j)"
      using Cons.prems by (intro Cons.IH) simp_all
    show ?thesis using IH False by (auto simp: step)
  qed
qed

lemma fold_voice_loop_body_sum:
  "distinct js \<Longrightarrow> \<forall>i\<in>set js. i < length voices \<Longrightarrow>
   fst (snd (fold voice_loop_body js (voices, s, c))) =
     s + (\<Sum>i\<leftarrow>js. if isActive (voices ! i)
                     then sint (currentOutput (update_square_wave (voices ! i))) else 0)"
proof (induction js arbitrary: voices s c)
  case Nil
  then show ?case by simp
next
  case (Cons i js)
  have notin: "i \<notin> set js" using Cons.prems(1) by simp
  show ?case
  proof (cases "isActive (voices ! i)")
    case True
    let ?vs = "voices[i := update_square_wave (voices ! i)]"
    let ?s = "s + sint (currentOutput (update_square_wave (voices ! i)))"
    have step: "voice_loop_body i (voices, s, c) = (?vs, ?s, c + 1)"
      using True by (simp add: voice_loop_body_def Let_def)
    have same: "\<And>k. k \<in> set js \<Longrightarrow> ?vs ! k = voices ! k"
      using notin by (metis nth_list_update_neq)
    have "fst (snd (fold voice_loop_body js (?vs, ?s, c + 1))) =
        ?s + (\<Sum>k\<leftarrow>js. if isActive (?vs ! k)
                     then sint (currentOutput (update_square_wave (?vs ! k))) else 0)"
      using Cons.prems by (intro Cons.IH) simp_all
    also have "(\<Sum>k\<leftarrow>js. if isActive (?vs ! k)
                     then sint (currentOutput (update_square_wave (?vs ! k))) else 0) =
       (\<Sum>k\<leftarrow>js. if isActive (voices ! k)
                     then sint (currentOutput (update_square_wave (voices ! k))) else 0)"
      by (rule arg_cong [where f = sum_list], rule map_cong) (simp_all add: same)
    finally show ?thesis using True by (simp add: step)
  next
    case False
    have step: "voice_loop_body i (voices, s, c) = (voices, s, c)"
      using False by (simp add: voice_loop_body_def)
    show ?thesis using Cons.IH [of voices s c] Cons.prems False by (simp add: step)
  qed
qed

lemma fold_voice_loop_body_count:
  "distinct js \<Longrightarrow> \<forall>i\<in>set js. i < length voices \<Longrightarrow>
   snd (snd (fold voice_loop_body js (voices, s, c))) =
     c + (\<Sum>i\<leftarrow>js. if isActive (voices ! i) then 1 else 0)"
proof (induction js arbitrary: voices s c)
  case Nil
  then show ?case by simp
next
  case (Cons i js)
  have notin: "i \<notin> set js" using Cons.prems(1) by simp
  show ?case
  proof (cases "isActive (voices ! i)")
    case True
    let ?vs = "voices[i := update_square_wave (voices ! i)]"
    let ?s = "s + sint (currentOutput (update_square_wave (voices ! i)))"
    have step: "voice_loop_body i (voices, s, c) = (?vs, ?s, c + 1)"
      using True by (simp add: voice_loop_body_def Let_def)
    have same: "\<And>k. k \<in> set js \<Longrightarrow> ?vs ! k = voices ! k"
      using notin by (metis nth_list_update_neq)
    have "snd (snd (fold voice_loop_body js (?vs, ?s, c + 1))) =
        c + 1 + (\<Sum>k\<leftarrow>js. if isActive (?vs ! k) then 1 else 0)"
      using Cons.prems by (intro Cons.IH) simp_all
    also have "(\<Sum>k\<leftarrow>js. if isActive (?vs ! k) then 1 else 0) =
       (\<Sum>k\<leftarrow>js. if isActive (voices ! k) then (1::int) else 0)"
      by (rule arg_cong [where f = sum_list], rule map_cong) (simp_all add: same)
    finally show ?thesis using True by (simp add: step)
  next
    case False
    have step: "voice_loop_body i (voices, s, c) = (voices, s, c)"
      using False by (simp add: voice_loop_body_def)
    show ?thesis using Cons.IH [of voices s c] Cons.prems False by (simp add: step)
  qed
qed

lemma audioTaskRunner_iteration_nth:
  assumes "length voices = SYNTH_MAX_VOICES" and "i < SYNTH_MAX_VOICES"
  shows "fst (audioTaskRunner_iteration voices) ! i =
     (if isActive (voices ! i) then update_square_wave (voices ! i) else voices ! i)"
proof -
  have "fst (audioTaskRunner_iteration voices) =
      fst (fold voice_loop_body [0..<SYNTH_MAX_VOICES] (voices, 0, 0))"
    by (simp add: audioTaskRunner_iteration_def split: prod.splits)
  then show ?thesis
    using assms fold_voice_loop_body_nth [of "[0..<SYNTH_MAX_VOICES]" voices i 0 0]
    by simp
qed

lemma update_square_wave_cases:
  "update_square_wave v =
     (if timeAtLevelRemaining v = 0
      then v\<lparr>currentOutput :=
                (if currentOutput v = targetAmplitude v then - targetAmplitude v
                 else targetAmplitude v),
              timeAtLevelRemaining := (if wavelength v = 0 then 0 else wavelength v - 1)\<rparr>
      else v\<lparr>timeAtLevelRemaining := timeAtLevelRemaining v - 1\<rparr>)"
  by (simp add: update_square_wave_def Let_def word_greater_zero_iff)

lemma sum_list_all_zero:
  "(\<And>j. j \<in> set js \<Longrightarrow> f j = (0::int)) \<Longrightarrow> sum_list (map f js) = 0"
  by (induction js) simp_all

lemma sum_list_single:
  "distinct js \<Longrightarrow> k \<in> set js \<Longrightarrow> (\<And>j. j \<in> set js \<Longrightarrow> j \<noteq> k \<Longrightarrow> f j = (0::int)) \<Longrightarrow>
   sum_list (map f js) = f k"
proof (induction js)
  case Nil
  then show ?case by simp
next
  case (Cons a js)
  show ?case
  proof (cases "a = k")
    case True
    then have "k \<notin> set js" using Cons.prems(1) by simp
    then have "sum_list (map f js) = 0"
      using Cons.prems(3) by (intro sum_list_all_zero) auto
    then show ?thesis using True by simp
  next
    case False
    then have "k \<in> set js" using Cons.prems(2) by simp
    moreover have "f a = 0" using Cons.prems(3) [of a] False by simp
    ultimately show ?thesis using Cons by simp
  qed
qed

lemma audioTaskRunner_iteration_sample:
  assumes "length voices = SYNTH_MAX_VOICES"
  shows "snd (audioTaskRunner_iteration voices) =
     mix_sample
       (\<Sum>i\<leftarrow>[0..<SYNTH_MAX_VOICES]. if isActive (voices ! i)
            then sint (currentOutput (update_square_wave (voices ! i))) else 0)
       (\<Sum>i\<leftarrow>[0..<SYNTH_MAX_VOICES]. if isActive (voices ! i) then 1 else 0)"
proof -
  obtain vs s c where f: "fold voice_loop_body [0..<SYNTH_MAX_VOICES] (voices, 0, 0) = (vs, s, c)"
    by (metis prod_cases3)
  have "s = fst (snd (fold voice_loop_body [0..<SYNTH_MAX_VOICES] (voices, 0, 0)))"
    and "c = snd (snd (fold voice_loop_body [0..<SYNTH_MAX_VOICES] (voices, 0, 0)))"
    by (simp_all add: f)
  then have "s = (\<Sum>i\<leftarrow>[0..<SYNTH_MAX_VOICES]. if isActive (voices ! i)
            then sint (currentOutput (update_square_wave (voices ! i))) else 0)"
    and "c = (\<Sum>i\<leftarrow>[0..<SYNTH_MAX_VOICES]. if isActive (voices ! i) then 1 else 0)"
    using assms
      fold_voice_loop_body_sum [of "[0..<SYNTH_MAX_VOICES]" voices 0 0]
      fold_voice_loop_body_count [of "[0..<SYNTH_MAX_VOICES]" voices 0 0]
    by simp_all
  then show ?thesis
    unfolding audioTaskRunner_iteration_def f by simp
qed

lemma roundf_of_int [simp]: "roundf (real_of_int k) = k"
  by (simp add: roundf_def)

lemma mix_sample_none: "mix_sample s 0 = 0"
  by (simp add: mix_sample_def)

lemma mix_sample_one_in_range:
  "SYNTH_MIN_OUTPUT_AMPLITUDE \<le> s \<Longrightarrow> s \<le> SYNTH_MAX_OUTPUT_AMPLITUDE \<Longrightarrow>
   mix_sample s 1 = word_of_int s"
  by (simp add: mix_sample_def)

lemma mix_sample_one: "mix_sample (sint (w :: 16 word)) 1 = w"
proof -
  have "- (2 ^ 15) \<le> sint w" and "sint w < 2 ^ 15"
    using sint_ge [of w] sint_lt [of w] by simp_all
  then have "mix_sample (sint w) 1 = word_of_int (sint w)"
    by (intro mix_sample_one_in_range) simp_all
  then show ?thesis by simp
qed

section \<open>Facts about the helpers of the synthesizer\<close>

lemma init_voices_eq: "init_voices = replicate SYNTH_MAX_VOICES default_VoiceState"
  by (simp add: init_voices_def default_VoiceState_def eval_nat_numeral upt_rec)

lemma findFreeVoice_unsafe_Some:
  "findFreeVoice_unsafe voices = Some i \<longleftrightarrow>
     i < SYNTH_MAX_VOICES \<and> \<not> isActive (voices ! i) \<and> (\<forall>j<i. isActive (voices ! j))"
  by (auto simp: findFreeVoice_unsafe_def find_Some_iff)

lemma findFreeVoice_unsafe_None:
  "findFreeVoice_unsafe voices = None \<longleftrightarrow> (\<forall>i<SYNTH_MAX_VOICES. isActive (voices ! i))"
  by (auto simp: findFreeVoice_unsafe_def find_None_iff)

lemma findVoicePlayingNote_unsafe_Some:
  "findVoicePlayingNote_unsafe voices n = Some i \<longleftrightarrow>
     i < SYNTH_MAX_VOICES \<and> isActive (voices ! i) \<and> midiNoteNumber (voices ! i) = n \<and>
     (\<forall>j<i. \<not> (isActive (voices ! j) \<and> midiNoteNumber (voices ! j) = n))"
  by (auto simp: findVoicePlayingNote_unsafe_def find_Some_iff)

lemma findVoicePlayingNote_unsafe_None:
  "findVoicePlayingNote_unsafe voices n = None \<longleftrightarrow>
     (\<forall>i<SYNTH_MAX_VOICES. \<not> (isActive (voices ! i) \<and> midiNoteNumber (voices ! i) = n))"
  by (auto simp: findVoicePlayingNote_unsafe_def find_None_iff)

lemma length_stopNote [simp]: "length (stopNote n voices) = length voices"
  by (simp add: stopNote_def split: option.splits)

lemma length_startNote [simp]: "length (fst (startNote n v voices)) = length voices"
  by (simp add: startNote_def Let_def split: option.splits)

lemma length_audioTaskRunner_iteration [simp]:
  "length (fst (audioTaskRunner_iteration voices)) = length voices"
proof -
  have "fst (audioTaskRunner_iteration voices) =
      fst (fold voice_loop_body [0..<SYNTH_MAX_VOICES] (voices, 0, 0))"
    by (simp add: audioTaskRunner_iteration_def split: prod.splits)
  then show ?thesis by (simp add: fold_voice_loop_body_length)
qed

lemma length_run_call [simp]: "length (run_call c voices) = length voices"
  by (cases c) simp_all

lemma roundf_mono: "x \<le> y \<Longrightarrow> roundf x \<le> roundf y"
  unfolding roundf_def by (auto intro: floor_mono) linarith+

lemma roundf_0 [simp]: "roundf 0 = 0"
  using roundf_of_int [of 0] by simp

lemma velocity_amp_f_range:
  "0 \<le> real_of_int (constrain v 0 127) / 127 * real_of_int SYNTH_MAX_NOTE_AMPLITUDE"
  "real_of_int (constrain v 0 127) / 127 * real_of_int SYNTH_MAX_NOTE_AMPLITUDE \<le> 16000"
  by (simp_all add: constrain_def)

lemma roundf_velocity_range:
  "0 \<le> roundf (real_of_int (constrain v 0 127) / 127 * real_of_int SYNTH_MAX_NOTE_AMPLITUDE)"
  "roundf (real_of_int (constrain v 0 127) / 127 * real_of_int SYNTH_MAX_NOTE_AMPLITUDE)
     \<le> SYNTH_MAX_NOTE_AMPLITUDE"
  using roundf_mono [OF velocity_amp_f_range(1) [of v]] roundf_mono [OF velocity_amp_f_range(2) [of v]]
    roundf_of_int [of 16000]
  by simp_all

lemma sint_velocityToAmplitude:
  "sint (velocityToAmplitude v) =
     roundf (real_of_int (constrain v 0 127) / 127 * real_of_int SYNTH_MAX_NOTE_AMPLITUDE)"
  unfolding velocityToAmplitude_def Let_def
  using roundf_velocity_range [of v]
  by (simp add: sint_sbintrunc' signed_take_bit_int_eq_self)

lemma velocityToAmplitude_range:
  "0 \<le> sint (velocityToAmplitude v)" "sint (velocityToAmplitude v) \<le> SYNTH_MAX_NOTE_AMPLITUDE"
  using roundf_velocity_range [of v] by (simp_all only: sint_velocityToAmplitude)

lemma velocityToAmplitude_eq_0_iff: "velocityToAmplitude v = 0 \<longleftrightarrow> v \<le> 0"
proof
  assume "velocityToAmplitude v = 0"
  then have z: "roundf (real_of_int (constrain v 0 127) / 127 * real_of_int SYNTH_MAX_NOTE_AMPLITUDE) = 0"
    using sint_velocityToAmplitude [of v] by simp
  show "v \<le> 0"
  proof (rule ccontr)
    assume "\<not> v \<le> 0"
    then have "1 \<le> constrain v 0 127" by (simp add: constrain_def)
    then have "(1::real) \<le> real_of_int (constrain v 0 127) / 127 * real_of_int SYNTH_MAX_NOTE_AMPLITUDE"
      by simp
    from roundf_mono [OF this] have "1 \<le> roundf (real_of_int (constrain v 0 127) / 127 * real_of_int SYNTH_MAX_NOTE_AMPLITUDE)"
      using roundf_of_int [of 1] by simp
    with z show False by simp
  qed
next
  assume "v \<le> 0"
  then have "constrain v 0 127 = 0" by (simp add: constrain_def)
  then show "velocityToAmplitude v = 0"
    by (simp add: velocityToAmplitude_def)
qed

lemma midiNoteToFrequency_pos_iff: "0 < midiNoteToFrequency n \<longleftrightarrow> 0 < n"
  by (simp add: midiNoteToFrequency_def)

lemma calculate_wavelength_pos_iff: "0 < calculate_wavelength f \<longleftrightarrow> 0 < f"
  by (auto simp: calculate_wavelength_def Let_def word_greater_zero_iff word_less_1)

lemma startNote_unfold:
  "fst (startNote n v voices) =
     (case findFreeVoice_unsafe (startNote_release n voices) of
        Some k \<Rightarrow> (startNote_release n voices)
                    [k := startNote_claim n v (startNote_release n voices ! k)]
      | None \<Rightarrow> startNote_release n voices)"
  by (auto simp: startNote_def startNote_release_def startNote_claim_def Let_def
      calculate_wavelength_pos_iff midiNoteToFrequency_pos_iff velocityToAmplitude_eq_0_iff
      not_le split: option.splits)

lemma length_startNote_release [simp]: "length (startNote_release n voices) = length voices"
  by (simp add: startNote_release_def split: option.splits)

lemma startNote_release_nth:
  "length voices = SYNTH_MAX_VOICES \<Longrightarrow> i < SYNTH_MAX_VOICES \<Longrightarrow>
   startNote_release n voices ! i =
     (if findVoicePlayingNote_unsafe voices n = Some i then (voices ! i)\<lparr>isActive := False\<rparr>
      else voices ! i)"
  by (auto simp: startNote_release_def nth_list_update split: option.splits)

lemma startNote_nth:
  "length voices = SYNTH_MAX_VOICES \<Longrightarrow> i < SYNTH_MAX_VOICES \<Longrightarrow>
   fst (startNote n v voices) ! i =
     (if findFreeVoice_unsafe (startNote_release n voices) = Some i
      then startNote_claim n v (startNote_release n voices ! i)
      else startNote_release n voices ! i)"
  by (auto simp: startNote_unfold nth_list_update split: option.splits)

lemma stopNote_nth:
  "length voices = SYNTH_MAX_VOICES \<Longrightarrow> i < SYNTH_MAX_VOICES \<Longrightarrow>
   stopNote n voices ! i =
     (if findVoicePlayingNote_unsafe voices n = Some i
      then (voices ! i)\<lparr>isActive := False, currentOutput := 0\<rparr>
      else voices ! i)"
  by (auto simp: stopNote_def nth_list_update split: option.splits)

lemma startNote_claim_simps [simp]:
  "isActive (startNote_claim n v slot) \<longleftrightarrow> 0 < n \<and> 0 < v"
  "midiNoteNumber (startNote_claim n v slot) = n"
  "targetAmplitude (startNote_claim n v slot) = velocityToAmplitude v"
  "currentOutput (startNote_claim n v slot) =
     (if 0 < n \<and> 0 < v then velocityToAmplitude v else currentOutput slot)"
  by (simp_all add: startNote_claim_def Let_def)

section \<open>The invariants hold in every reachable voice table\<close>

lemma sint_uminus_amplitude:
  "0 \<le> sint (t :: 16 word) \<Longrightarrow> sint t \<le> SYNTH_MAX_NOTE_AMPLITUDE \<Longrightarrow> sint (- t) = - sint t"
proof -
  assume a: "0 \<le> sint t" "sint t \<le> SYNTH_MAX_NOTE_AMPLITUDE"
  have "- t = (word_of_int (- sint t) :: 16 word)" by simp
  then have "sint (- t) = sint (word_of_int (- sint t) :: 16 word)"
    by simp
  also have "\<dots> = signed_take_bit 15 (- sint t)"
    by (simp only: sint_sbintrunc') simp
  also have "\<dots> = - sint t"
    using a by (simp add: signed_take_bit_int_eq_self)
  finally show ?thesis .
qed

lemma update_square_wave_fields [simp]:
  "isActive (update_square_wave v) = isActive v"
  "midiNoteNumber (update_square_wave v) = midiNoteNumber v"
  "targetAmplitude (update_square_wave v) = targetAmplitude v"
  by (simp_all add: update_square_wave_cases)

lemma amplitude_bounded_update_square_wave:
  "amplitude_bounded v \<Longrightarrow> amplitude_bounded (update_square_wave v)"
  by (auto simp: amplitude_bounded_def update_square_wave_cases sint_uminus_amplitude)

lemma voices_inv_audioTaskRunner_iteration:
  assumes "voices_inv voices"
  shows "voices_inv (fst (audioTaskRunner_iteration voices))"
proof -
  have len: "length voices = SYNTH_MAX_VOICES" using assms by (simp add: voices_inv_def)
  have nth: "\<And>i. i < SYNTH_MAX_VOICES \<Longrightarrow>
      fst (audioTaskRunner_iteration voices) ! i =
        (if isActive (voices ! i) then update_square_wave (voices ! i) else voices ! i)"
    by (rule audioTaskRunner_iteration_nth [OF len])
  show ?thesis
    using assms
    unfolding voices_inv_def notes_unique_def active_notes_positive_def
    by (auto simp: nth amplitude_bounded_update_square_wave)
qed

lemma voices_inv_stopNote:
  assumes "voices_inv voices"
  shows "voices_inv (stopNote n voices)"
proof -
  have len: "length voices = SYNTH_MAX_VOICES" using assms by (simp add: voices_inv_def)
  have nth: "\<And>i. i < SYNTH_MAX_VOICES \<Longrightarrow>
      stopNote n voices ! i =
        (if findVoicePlayingNote_unsafe voices n = Some i
         then (voices ! i)\<lparr>isActive := False, currentOutput := 0\<rparr> else voices ! i)"
    by (rule stopNote_nth [OF len])
  show ?thesis
    using assms
    unfolding voices_inv_def notes_unique_def active_notes_positive_def
    by (auto simp: nth amplitude_bounded_def)
qed

lemma startNote_release_no_player:
  assumes "length voices = SYNTH_MAX_VOICES" and "notes_unique voices" and "i < SYNTH_MAX_VOICES"
  shows "\<not> (isActive (startNote_release n voices ! i) \<and>
            midiNoteNumber (startNote_release n voices ! i) = n)"
proof (cases "findVoicePlayingNote_unsafe voices n")
  case None
  then show ?thesis
    using assms by (simp add: startNote_release_nth findVoicePlayingNote_unsafe_None)
next
  case (Some e)
  then have e: "e < SYNTH_MAX_VOICES" "isActive (voices ! e)" "midiNoteNumber (voices ! e) = n"
    by (simp_all add: findVoicePlayingNote_unsafe_Some)
  show ?thesis
  proof (cases "i = e")
    case True
    then show ?thesis using assms Some by (simp add: startNote_release_nth)
  next
    case False
    then have "\<not> (isActive (voices ! i) \<and> midiNoteNumber (voices ! i) = n)"
      using assms(2,3) e unfolding notes_unique_def by blast
    then show ?thesis using assms Some False by (simp add: startNote_release_nth)
  qed
qed

lemma voices_inv_startNote:
  assumes "voices_inv voices"
  shows "voices_inv (fst (startNote n v voices))"
proof -
  have len: "length voices = SYNTH_MAX_VOICES" and uniq: "notes_unique voices"
    using assms by (simp_all add: voices_inv_def)
  let ?r = "startNote_release n voices"
  have rel: "\<And>i. i < SYNTH_MAX_VOICES \<Longrightarrow>
      ?r ! i = (if findVoicePlayingNote_unsafe voices n = Some i
                then (voices ! i)\<lparr>isActive := False\<rparr> else voices ! i)"
    by (rule startNote_release_nth [OF len])
  have nth: "\<And>i. i < SYNTH_MAX_VOICES \<Longrightarrow>
      fst (startNote n v voices) ! i =
        (if findFreeVoice_unsafe ?r = Some i then startNote_claim n v (?r ! i) else ?r ! i)"
    by (rule startNote_nth [OF len])
  have nop: "\<And>i. i < SYNTH_MAX_VOICES \<Longrightarrow> isActive (?r ! i) \<Longrightarrow> midiNoteNumber (?r ! i) \<noteq> n"
    using startNote_release_no_player [OF len uniq] by blast
  have r_act: "\<And>i. i < SYNTH_MAX_VOICES \<Longrightarrow> isActive (?r ! i) \<Longrightarrow>
      isActive (voices ! i) \<and> ?r ! i = voices ! i"
    by (simp add: rel split: if_splits)
  have r_amp: "\<And>i. i < SYNTH_MAX_VOICES \<Longrightarrow> amplitude_bounded (?r ! i)"
    using assms by (simp add: rel voices_inv_def amplitude_bounded_def)
  have 1: "length (fst (startNote n v voices)) = SYNTH_MAX_VOICES" using len by simp
  have 2: "notes_unique (fst (startNote n v voices))"
    unfolding notes_unique_def
  proof (intro allI impI)
    fix i j
    assume i: "i < SYNTH_MAX_VOICES" and j: "j < SYNTH_MAX_VOICES"
      and a: "isActive (fst (startNote n v voices) ! i) \<and> isActive (fst (startNote n v voices) ! j) \<and>
        midiNoteNumber (fst (startNote n v voices) ! i) = midiNoteNumber (fst (startNote n v voices) ! j)"
    show "i = j"
    proof (cases "findFreeVoice_unsafe ?r = Some i")
      case True
      show ?thesis
      proof (rule ccontr)
        assume "i \<noteq> j"
        then have "findFreeVoice_unsafe ?r \<noteq> Some j" using True by simp
        then show False using a i j True nop [OF j] by (simp add: nth)
      qed
    next
      case False
      show ?thesis
      proof (cases "findFreeVoice_unsafe ?r = Some j")
        case True
        then show ?thesis using a i j False nop [OF i] by (auto simp: nth)
      next
        case jF: False
        then have "isActive (voices ! i)" "isActive (voices ! j)"
          "midiNoteNumber (voices ! i) = midiNoteNumber (voices ! j)"
          using a i j False r_act [OF i] r_act [OF j] by (simp_all add: nth)
        then show ?thesis using uniq i j unfolding notes_unique_def by blast
      qed
    qed
  qed
  have 3: "active_notes_positive (fst (startNote n v voices))"
    unfolding active_notes_positive_def
  proof (intro allI impI)
    fix i assume i: "i < SYNTH_MAX_VOICES" and a: "isActive (fst (startNote n v voices) ! i)"
    show "0 < midiNoteNumber (fst (startNote n v voices) ! i)"
    proof (cases "findFreeVoice_unsafe ?r = Some i")
      case True
      then show ?thesis using a i by (simp add: nth)
    next
      case False
      then have "isActive (voices ! i)" "fst (startNote n v voices) ! i = voices ! i"
        using a i r_act [OF i] by (simp_all add: nth)
      then show ?thesis using assms i by (simp add: voices_inv_def active_notes_positive_def)
    qed
  qed
  have 4: "\<forall>i<SYNTH_MAX_VOICES. amplitude_bounded (fst (startNote n v voices) ! i)"
  proof (intro allI impI)
    fix i assume i: "i < SYNTH_MAX_VOICES"
    have "amplitude_bounded (startNote_claim n v (?r ! i))"
      using r_amp [OF i] velocityToAmplitude_range [of v]
      by (simp add: amplitude_bounded_def)
    then show "amplitude_bounded (fst (startNote n v voices) ! i)"
      using i r_amp [OF i] by (simp add: nth)
  qed
  show ?thesis using 1 2 3 4 by (simp add: voices_inv_def)
qed

lemma voices_inv_init: "voices_inv init_voices"
  by (simp add: voices_inv_def init_voices_eq notes_unique_def active_notes_positive_def
      amplitude_bounded_def default_VoiceState_def)

lemma voices_inv_run_call: "voices_inv voices \<Longrightarrow> voices_inv (run_call c voices)"
  by (cases c)
    (simp_all add: voices_inv_startNote voices_inv_stopNote voices_inv_audioTaskRunner_iteration)

lemma voices_inv_fold: "voices_inv voices \<Longrightarrow> voices_inv (fold run_call calls voices)"
  by (induction calls arbitrary: voices) (simp_all add: voices_inv_run_call)

lemma voices_inv_run_calls: "voices_inv (run_calls calls)"
  by (simp add: run_calls_def voices_inv_fold voices_inv_init)

lemma one_voice_table_others_inactive:
  "j < SYNTH_MAX_VOICES \<Longrightarrow> j \<noteq> 0 \<Longrightarrow> \<not> isActive (one_voice_table ! j)"
  by (simp add: one_voice_table_def default_VoiceState_def)

section \<open>Starting a note\<close>

lemma startNote_claim_started:
  "0 < n \<Longrightarrow> 0 < v \<Longrightarrow>
   startNote_claim n v slot =
     slot\<lparr>isActive := True, midiNoteNumber := n, frequency := midiNoteToFrequency n,
          targetAmplitude := velocityToAmplitude v,
          wavelength := calculate_wavelength (midiNoteToFrequency n),
          currentOutput := velocityToAmplitude v,
          timeAtLevelRemaining := calculate_wavelength (midiNoteToFrequency n)\<rparr>"
  by (simp add: startNote_claim_def)

text \<open>What \<open>startNote\<close> leaves in a slot that plays the note afterwards.\<close>

lemma startNote_player_is_fresh:
  assumes inv: "voices_inv voices" and k: "k < SYNTH_MAX_VOICES"
    and act: "isActive (fst (startNote n v voices) ! k)"
    and nn: "midiNoteNumber (fst (startNote n v voices) ! k) = n"
  shows "0 < n \<and> 0 < v \<and>
     findFreeVoice_unsafe (startNote_release n voices) = Some k \<and>
     fst (startNote n v voices) ! k = startNote_claim n v (startNote_release n voices ! k)"
proof -
  have len: "length voices = SYNTH_MAX_VOICES" and uniq: "notes_unique voices"
    using inv by (simp_all add: voices_inv_def)
  have claimed: "findFreeVoice_unsafe (startNote_release n voices) = Some k"
  proof (rule ccontr)
    assume "findFreeVoice_unsafe (startNote_release n voices) \<noteq> Some k"
    then have "fst (startNote n v voices) ! k = startNote_release n voices ! k"
      using k by (simp add: startNote_nth [OF len])
    then show False
      using act nn startNote_release_no_player [OF len uniq k, of n] by simp
  qed
  then have eq: "fst (startNote n v voices) ! k =
      startNote_claim n v (startNote_release n voices ! k)"
    using k by (simp add: startNote_nth [OF len])
  then have "0 < n \<and> 0 < v" using act by simp
  with claimed eq show ?thesis by simp
qed

lemma startNote_retrigger:
  assumes inv: "voices_inv voices" and v: "0 < v"
    and i: "i < SYNTH_MAX_VOICES" "isActive (voices ! i)" "midiNoteNumber (voices ! i) = n"
  shows "\<exists>k<SYNTH_MAX_VOICES.
     isActive (fst (startNote n v voices) ! k) \<and>
     midiNoteNumber (fst (startNote n v voices) ! k) = n"
proof -
  have len: "length voices = SYNTH_MAX_VOICES" using inv by (simp add: voices_inv_def)
  have n: "0 < n" using inv i by (auto simp: voices_inv_def active_notes_positive_def)
  obtain e where e: "findVoicePlayingNote_unsafe voices n = Some e"
    using i findVoicePlayingNote_unsafe_None [of voices n] by (cases "findVoicePlayingNote_unsafe voices n") auto
  then have "e < SYNTH_MAX_VOICES" by (simp add: findVoicePlayingNote_unsafe_Some)
  then have "\<not> isActive (startNote_release n voices ! e)"
    using e by (simp add: startNote_release_nth [OF len])
  with \<open>e < SYNTH_MAX_VOICES\<close> obtain k where k: "findFreeVoice_unsafe (startNote_release n voices) = Some k"
    using findFreeVoice_unsafe_None [of "startNote_release n voices"]
    by (cases "findFreeVoice_unsafe (startNote_release n voices)") auto
  then have kl: "k < SYNTH_MAX_VOICES" by (simp add: findFreeVoice_unsafe_Some)
  then have "fst (startNote n v voices) ! k = startNote_claim n v (startNote_release n voices ! k)"
    using k by (simp add: startNote_nth [OF len])
  then have "isActive (fst (startNote n v voices) ! k) \<and>
     midiNoteNumber (fst (startNote n v voices) ! k) = n"
    using n v by simp
  with kl show ?thesis by blast
qed

lemma findFreeVoice_unsafe_init: "findFreeVoice_unsafe init_voices = Some 0"
  by (simp add: findFreeVoice_unsafe_Some init_voices_eq default_VoiceState_def)

lemma findVoicePlayingNote_unsafe_init: "findVoicePlayingNote_unsafe init_voices n = None"
  by (simp add: findVoicePlayingNote_unsafe_None init_voices_eq default_VoiceState_def)

lemma first_startNote:
  "0 < n \<Longrightarrow> 0 < v \<Longrightarrow>
   run_calls [StartNote n v] ! 0 = startNote_claim n v default_VoiceState"
  by (simp add: run_calls_def startNote_unfold startNote_release_def
      findFreeVoice_unsafe_init findVoicePlayingNote_unsafe_init)
    (simp add: init_voices_eq)

section \<open>Inactive voices and the mix\<close>

lemma velocityToAmplitude_100: "velocityToAmplitude 100 = 12598"
  by (simp add: velocityToAmplitude_def constrain_def roundf_def)

lemma audioTaskRunner_iteration_ignores_inactive:
  assumes len: "length voices = SYNTH_MAX_VOICES" and i: "i < SYNTH_MAX_VOICES"
    and off: "\<not> isActive (voices ! i)"
  shows "snd (audioTaskRunner_iteration (voices[i := (voices ! i)\<lparr>currentOutput := x\<rparr>])) =
     snd (audioTaskRunner_iteration voices)"
proof -
  let ?vs = "voices[i := (voices ! i)\<lparr>currentOutput := x\<rparr>]"
  have len': "length ?vs = SYNTH_MAX_VOICES" using len by simp
  have same: "isActive (?vs ! j) = isActive (voices ! j) \<and>
      (isActive (voices ! j) \<longrightarrow> ?vs ! j = voices ! j)" if "j < SYNTH_MAX_VOICES" for j
    using len off that by (cases "j = i") simp_all
  have s: "(\<Sum>j\<leftarrow>[0..<SYNTH_MAX_VOICES]. if isActive (?vs ! j)
              then sint (currentOutput (update_square_wave (?vs ! j))) else 0) =
           (\<Sum>j\<leftarrow>[0..<SYNTH_MAX_VOICES]. if isActive (voices ! j)
              then sint (currentOutput (update_square_wave (voices ! j))) else 0)"
    by (rule arg_cong [where f = sum_list], rule map_cong) (use same in auto)
  have c: "(\<Sum>j\<leftarrow>[0..<SYNTH_MAX_VOICES]. if isActive (?vs ! j) then 1 else 0) =
           (\<Sum>j\<leftarrow>[0..<SYNTH_MAX_VOICES]. if isActive (voices ! j) then (1::int) else 0)"
    by (rule arg_cong [where f = sum_list], rule map_cong) (use same in auto)
  show ?thesis
    by (simp only: audioTaskRunner_iteration_sample [OF len'] audioTaskRunner_iteration_sample [OF len] s c)
qed

lemma retrigger_table_reachable:
  "run_calls [StartNote 60 100, StartNote 62 100, StopNote 60] = retrigger_table"
proof -
  let ?d = default_VoiceState
  let ?p0 = "replicate SYNTH_MAX_VOICES ?d"
  let ?p1 = "?p0[0 := startNote_claim 60 100 ?d]"
  let ?p2 = "?p1[1 := startNote_claim 62 100 ?d]"
  have d: "\<not> isActive ?d" by (simp add: default_VoiceState_def)
  have s1: "fst (startNote 60 100 init_voices) = ?p1"
    by (simp add: startNote_unfold startNote_release_def findVoicePlayingNote_unsafe_init
        findFreeVoice_unsafe_init) (simp add: init_voices_eq)
  have f1: "findVoicePlayingNote_unsafe ?p1 62 = None"
    by (simp add: findVoicePlayingNote_unsafe_None nth_list_update d)
  have g1: "findFreeVoice_unsafe ?p1 = Some 1"
    by (simp add: findFreeVoice_unsafe_Some d)
  have s2: "fst (startNote 62 100 ?p1) = ?p2"
    using f1 g1 by (simp add: startNote_unfold startNote_release_def)
  have f2: "findVoicePlayingNote_unsafe ?p2 60 = Some 0"
    by (simp add: findVoicePlayingNote_unsafe_Some)
  have s3: "stopNote 60 ?p2 = ?p2[0 := (?p2 ! 0)\<lparr>isActive := False, currentOutput := 0\<rparr>]"
    using f2 by (simp add: stopNote_def)
  have "run_calls [StartNote 60 100, StartNote 62 100, StopNote 60] =
      ?p2[0 := (?p2 ! 0)\<lparr>isActive := False, currentOutput := 0\<rparr>]"
    by (simp only: run_calls_def fold_simps run_call.simps s1 s2 s3)
  also have "\<dots> = retrigger_table"
    by (simp add: retrigger_table_def startNote_claim_def default_VoiceState_def list_update_swap [of "Suc 0" 0])
  finally show ?thesis .
qed

lemma retrigger_table_slot:
  "fst (startNote 62 100 retrigger_table) ! 1 = (retrigger_table ! 1)\<lparr>isActive := False\<rparr>"
proof -
  have len: "length retrigger_table = SYNTH_MAX_VOICES" by (simp add: retrigger_table_def)
  have e: "findVoicePlayingNote_unsafe retrigger_table 62 = Some 1"
    by (simp add: findVoicePlayingNote_unsafe_Some retrigger_table_def)
  have r0: "startNote_release 62 retrigger_table ! 0 = retrigger_table ! 0"
    using startNote_release_nth [OF len, of 0 62] e by simp
  have r1: "startNote_release 62 retrigger_table ! 1 = (retrigger_table ! 1)\<lparr>isActive := False\<rparr>"
    using startNote_release_nth [OF len, of 1 62] e by simp
  have "\<not> isActive (retrigger_table ! 0)" by (simp add: retrigger_table_def)
  then have k: "findFreeVoice_unsafe (startNote_release 62 retrigger_table) = Some 0"
    by (simp add: findFreeVoice_unsafe_Some r0)
  show ?thesis
    using startNote_nth [OF len, of 1 62 100] k r1 by simp
qed

lemma retrigger_table_player: "findVoicePlayingNote_unsafe retrigger_table 62 = Some 1"
  by (simp add: findVoicePlayingNote_unsafe_Some retrigger_table_def)

section \<open>Single precision\<close>

lemma round_even_error: "\<bar>real_of_int (round_even x) - x\<bar> \<le> 1 / 2"
  unfolding round_even_def Let_def by (auto simp: abs_le_iff)

lemma floor_log2_eq:
  assumes "2 powi e \<le> \<bar>x\<bar>" and "\<bar>x\<bar> < 2 powi (e + 1)"
  shows "\<lfloor>log 2 \<bar>x\<bar>\<rfloor> = e"
proof -
  have pos: "0 < \<bar>x\<bar>" using assms(1) zero_less_power_int [of "2::real" e] by linarith
  have "(2::real) powr real_of_int e = 2 powi e"
    by (rule powr_real_of_int') simp_all
  moreover have "(2::real) powr real_of_int (e + 1) = 2 powi (e + 1)"
    by (rule powr_real_of_int') simp_all
  then have "(2::real) powr (real_of_int e + 1) = 2 powi (e + 1)"
    by (simp add: add.commute)
  ultimately have "2 powr real_of_int e \<le> \<bar>x\<bar> \<and> \<bar>x\<bar> < 2 powr (real_of_int e + 1)"
    using assms by simp
  then show ?thesis
    using floor_log_eq_powr_iff [of "\<bar>x\<bar>" 2 e] pos by simp
qed

text \<open>The rounding of a number whose binary exponent \<open>e\<close> is known.\<close>

lemma fl32_at:
  assumes "2 powi e \<le> \<bar>x\<bar>" and "\<bar>x\<bar> < 2 powi (e + 1)" and "- 126 \<le> e"
  shows "fl32 x = real_of_int (round_even (x / 2 powi (e - 23))) * 2 powi (e - 23)"
proof -
  have "x \<noteq> 0" using assms(1) zero_less_power_int [of "2::real" e] by linarith
  then show ?thesis
    using assms(3) by (simp add: fl32_def floor_log2_eq [OF assms(1,2)] Let_def max_def)
qed

text \<open>In the normal range the rounding error is at most \<open>2 powi (- 24)\<close> of the value.\<close>

lemma fl32_error:
  assumes "2 powi (- 126) \<le> x"
  shows "\<bar>fl32 x - x\<bar> \<le> x / 2 ^ 24"
proof -
  have x: "0 < x" using assms zero_less_power_int [of "2::real" "- 126"] by linarith
  define e where "e = \<lfloor>log 2 \<bar>x\<bar>\<rfloor>"
  have "2 powr real_of_int e \<le> \<bar>x\<bar> \<and> \<bar>x\<bar> < 2 powr (real_of_int e + 1)"
    using floor_log_eq_powr_iff [of "\<bar>x\<bar>" 2 e] x by (simp add: e_def)
  moreover have "(2::real) powr real_of_int e = 2 powi e"
    by (rule powr_real_of_int') simp_all
  moreover have "(2::real) powr real_of_int (e + 1) = 2 powi (e + 1)"
    by (rule powr_real_of_int') simp_all
  then have "(2::real) powr (real_of_int e + 1) = 2 powi (e + 1)"
    by (simp add: add.commute)
  ultimately have lo: "2 powi e \<le> x" and hi: "x < 2 powi (e + 1)"
    using x by simp_all
  have lt: "(2::real) powi (- 126) < 2 powi (e + 1)" using assms hi by linarith
  have e: "- 126 \<le> e"
  proof (rule ccontr)
    assume "\<not> - 126 \<le> e"
    then have "e + 1 \<le> - 126" by simp
    then have "(2::real) powi (e + 1) \<le> 2 powi (- 126)"
      by (intro power_int_increasing) simp_all
    with lt show False by linarith
  qed
  define q :: real where "q = 2 powi (e - 23)"
  have q: "0 < q" by (simp add: q_def)
  have fl: "fl32 x = real_of_int (round_even (x / q)) * q"
    unfolding q_def using lo hi e x by (intro fl32_at) simp_all
  have "fl32 x - x = (real_of_int (round_even (x / q)) - x / q) * q"
    using q by (simp add: fl field_simps)
  then have "\<bar>fl32 x - x\<bar> = \<bar>real_of_int (round_even (x / q)) - x / q\<bar> * \<bar>q\<bar>"
    by (simp only: abs_mult)
  then have "\<bar>fl32 x - x\<bar> = \<bar>real_of_int (round_even (x / q)) - x / q\<bar> * q"
    using q by simp
  also have "\<dots> \<le> 1 / 2 * q"
    using round_even_error [of "x / q"] q by (intro mult_right_mono) simp_all
  also have "1 / 2 * q = 2 powi e / 2 ^ 24"
    by (simp add: q_def power_int_diff)
  also have "\<dots> \<le> x / 2 ^ 24"
    using lo by (simp add: divide_right_mono)
  finally show ?thesis .
qed

lemma tick_length_error:
  assumes "0 < b" and "b < 2 powi 128"
  shows "\<bar>fl32 (fl32 (fl32 (60000000 / b) / 1000) / 96) - (60000 / b) / 96\<bar>
           \<le> ((60000 / b) / 96) / 2 ^ 22"
proof -
  define L :: real where "L = 2 powi (- 126)"
  define x1 where "x1 = 60000000 / b"
  define y1 where "y1 = fl32 x1"
  define y2 where "y2 = fl32 (y1 / 1000)"
  define y3 where "y3 = fl32 (y2 / 96)"
  have L: "0 < L" by (simp add: L_def)
  have err: "\<bar>fl32 x - x\<bar> \<le> x / 16777216" if "L \<le> x" for x
    using fl32_error [of x] that by (simp add: L_def)
  have "1 / 2 powi 128 < 1 / b"
    using assms by (intro divide_strict_left_mono) simp_all
  then have "60000000 * (1 / 2 powi 128) < 60000000 * (1 / b)"
    by (intro mult_strict_left_mono) simp_all
  moreover have "60000000 * (1 / 2 powi 128) = 15000000 * L"
    by (simp add: L_def power_int_minus_divide)
  ultimately have x1: "15000000 * L < x1"
    by (simp add: x1_def)
  have e1: "\<bar>y1 - x1\<bar> \<le> x1 / 16777216"
    unfolding y1_def using x1 L by (intro err) linarith
  have e2: "\<bar>y2 - y1 / 1000\<bar> \<le> (y1 / 1000) / 16777216"
    unfolding y2_def using e1 x1 L by (intro err) linarith
  have e3: "\<bar>y3 - y2 / 96\<bar> \<le> (y2 / 96) / 16777216"
    unfolding y3_def using e1 e2 x1 L by (intro err) linarith
  have "\<bar>y3 - x1 / 96000\<bar> \<le> (x1 / 96000) / 4194304"
    using e1 e2 e3 x1 L by linarith
  moreover have "(60000 / b) / 96 = x1 / 96000" by (simp add: x1_def)
  ultimately show ?thesis
    by (simp add: y3_def y2_def y1_def x1_def)
qed

section \<open>Facts about the player\<close>

lemma millis_per_tick_calculateTimingFactors:
  "millis_per_tick (calculateTimingFactors b q) =
     fl32 (fl32 (fl32 (60000000 / (if b \<le> 0 then 120 else b)) / 1000) /
           real TICKS_PER_QUARTER_NOTE)"
  by (simp add: calculateTimingFactors_def Let_def)

text \<open>The tick lengths of 120 and 150 beats per minute, and the delays of the examples.\<close>

lemma tick_length_120:
  "millis_per_tick (calculateTimingFactors 120 q) = 10922667 / 2097152"
proof -
  have a: "fl32 500000 = 500000"
    by (subst fl32_at [where e = 18]) (simp_all add: round_even_def)
  have b: "fl32 500 = 500"
    by (subst fl32_at [where e = 8]) (simp_all add: round_even_def)
  have c: "fl32 (125 / 24) = 10922667 / 2097152"
    by (subst fl32_at [where e = 2]) (simp_all add: round_even_def)
  show ?thesis
    by (simp add: millis_per_tick_calculateTimingFactors a b c)
qed

lemma tick_length_150:
  "millis_per_tick (calculateTimingFactors 150 q) = 8738133 / 2097152"
proof -
  have a: "fl32 400000 = 400000"
    by (subst fl32_at [where e = 18]) (simp_all add: round_even_def)
  have b: "fl32 400 = 400"
    by (subst fl32_at [where e = 8]) (simp_all add: round_even_def)
  have c: "fl32 (25 / 6) = 8738133 / 2097152"
    by (subst fl32_at [where e = 2]) (simp_all add: round_even_def)
  show ?thesis
    by (simp add: millis_per_tick_calculateTimingFactors a b c)
qed

lemma delays_120:
  assumes "millis_per_tick p = 10922667 / 2097152"
  shows "convertTicksToMillis 96 p = 500" and "convertTicksToMillis 48 p = 250"
proof -
  have u: "real (unat (96::16 word)) = 96" "real (unat (48::16 word)) = 48"
    "real (unat (15::16 word)) = 15" "real (unat (3::16 word)) = 3"
    by simp_all
  have a: "fl32 (96 * (10922667 / 2097152)) = 500"
    by (subst fl32_at [where e = 8]) (simp_all add: round_even_def)
  have b: "fl32 (48 * (10922667 / 2097152)) = 250"
    by (subst fl32_at [where e = 7]) (simp_all add: round_even_def)
  show "convertTicksToMillis 96 p = 500"
    unfolding convertTicksToMillis_def assms by (simp only: u a) (simp add: roundf_def)
  show "convertTicksToMillis 48 p = 250"
    unfolding convertTicksToMillis_def assms by (simp only: u b) (simp add: roundf_def)
qed

lemma delays_150:
  assumes "millis_per_tick p = 8738133 / 2097152"
  shows "convertTicksToMillis 96 p = 400" and "convertTicksToMillis 15 p = 62"
    and "convertTicksToMillis 3 p = 13"
proof -
  have u: "real (unat (96::16 word)) = 96" "real (unat (48::16 word)) = 48"
    "real (unat (15::16 word)) = 15" "real (unat (3::16 word)) = 3"
    by simp_all
  have a: "fl32 (96 * (8738133 / 2097152)) = 400"
    by (subst fl32_at [where e = 8]) (simp_all add: round_even_def)
  have b: "fl32 (15 * (8738133 / 2097152)) = 16383999 / 262144"
    by (subst fl32_at [where e = 5]) (simp_all add: round_even_def)
  have c: "fl32 (3 * (8738133 / 2097152)) = 25 / 2"
    by (subst fl32_at [where e = 3]) (simp_all add: round_even_def)
  show "convertTicksToMillis 96 p = 400"
    unfolding convertTicksToMillis_def assms by (simp only: u a) (simp add: roundf_def)
  show "convertTicksToMillis 15 p = 62"
    unfolding convertTicksToMillis_def assms by (simp only: u b) (simp add: roundf_def)
  show "convertTicksToMillis 3 p = 13"
    unfolding convertTicksToMillis_def assms by (simp only: u c) (simp add: roundf_def)
qed

lemma loadSong_success:
  "midi_data_ptr song \<noteq> 0 \<Longrightarrow> event_count song \<noteq> 0 \<Longrightarrow>
   loadSong (Some song) q =
     (True, (calculateTimingFactors (bpm song)
               (q\<lparr>current_song_data_ptr := midi_data_ptr song,
                   current_event_count := event_count song,
                   current_bpm := bpm song\<rparr>))
            \<lparr>is_playing := False, current_event_index := 0, next_event_time_ms := 0\<rparr>)"
  by (simp add: loadSong_def Let_def)

lemma calculateTimingFactors_fields [simp]:
  "synth (calculateTimingFactors b q) = synth q"
  "current_song_data_ptr (calculateTimingFactors b q) = current_song_data_ptr q"
  "current_event_count (calculateTimingFactors b q) = current_event_count q"
  "current_bpm (calculateTimingFactors b q) = current_bpm q"
  "is_playing (calculateTimingFactors b q) = is_playing q"
  "current_event_index (calculateTimingFactors b q) = current_event_index q"
  "next_event_time_ms (calculateTimingFactors b q) = next_event_time_ms q"
  by (simp_all add: calculateTimingFactors_def Let_def)

text \<open>The branch of \<open>update\<close> that processes an event.\<close>

lemma update_processes:
  assumes "is_playing p" and "next_event_time_ms p \<le> now"
    and "current_event_index p < current_event_count p"
  shows "update flash now p voices =
     (True,
      scheduleNextEvent flash now (p\<lparr>current_event_index := current_event_index p + 1\<rparr>),
      processCurrentEvent flash p voices)"
  using assms by (simp add: update_def Let_def scheduleNextEvent_def not_le)

lemma loaded_player_eq:
  "loaded_player =
     \<lparr>synth = True, current_song_data_ptr = 0x3F400000, current_event_count = 2,
      current_bpm = 120, is_playing = False, current_event_index = 0,
      next_event_time_ms = 0, millis_per_tick = 10922667 / 2097152\<rparr>"
proof -
  have "millis_per_tick (calculateTimingFactors 120 q) = 10922667 / 2097152" for q
    by (rule tick_length_120)
  then show ?thesis
    by (simp add: loaded_player_def loadSong_def example_song_def Let_def init_def
        MidiPlayer_new_def calculateTimingFactors_def)
qed

lemma example_player_started:
  "example_player =
     start example_flash 1000 (snd (loadSong (Some example_song) (init MidiPlayer_new)))"
proof -
  have "convertTicksToMillis 96 (loaded_player\<lparr>current_event_index := 0, is_playing := True\<rparr>) = 500"
    by (rule delays_120) (simp add: loaded_player_eq)
  then show ?thesis
    unfolding loaded_player_def [symmetric]
    by (simp add: start_def Let_def pgm_read_uint16_big_endian_def)
      (simp add: loaded_player_eq example_player_def example_flash_def)
qed

lemma processCurrentEvent_unknown_kind:
  "flash (current_event_address p + 2) \<noteq> 0 \<Longrightarrow> flash (current_event_address p + 2) \<noteq> 1 \<Longrightarrow>
   processCurrentEvent flash p voices = voices"
  by (simp add: processCurrentEvent_def Let_def)

lemma stopNote_first_player_off:
  assumes "length voices = SYNTH_MAX_VOICES" and "findVoicePlayingNote_unsafe voices n = Some i"
  shows "\<not> isActive (stopNote n voices ! i)"
proof -
  have "i < SYNTH_MAX_VOICES" using assms(2) by (simp add: findVoicePlayingNote_unsafe_Some)
  then show ?thesis using assms by (simp add: stopNote_nth)
qed

lemma stopNote_no_player:
  assumes len: "length voices = SYNTH_MAX_VOICES" and uniq: "notes_unique voices"
  shows "findVoicePlayingNote_unsafe (stopNote n voices) n = None"
proof (cases "findVoicePlayingNote_unsafe voices n")
  case None
  then show ?thesis by (simp add: stopNote_def)
next
  case (Some e)
  then have e: "e < SYNTH_MAX_VOICES" "isActive (voices ! e)" "midiNoteNumber (voices ! e) = n"
    by (simp_all add: findVoicePlayingNote_unsafe_Some)
  have "\<not> (isActive (stopNote n voices ! i) \<and> midiNoteNumber (stopNote n voices ! i) = n)"
    if i: "i < SYNTH_MAX_VOICES" for i
  proof (cases "i = e")
    case True
    then show ?thesis using i Some by (simp add: stopNote_nth [OF len])
  next
    case False
    then have "\<not> (isActive (voices ! i) \<and> midiNoteNumber (voices ! i) = n)"
      using uniq i e unfolding notes_unique_def by blast
    then show ?thesis using i Some False by (simp add: stopNote_nth [OF len])
  qed
  then show ?thesis by (simp add: findVoicePlayingNote_unsafe_None)
qed

lemma retrigger_table_inv: "voices_inv retrigger_table"
  using voices_inv_run_calls [of "[StartNote 60 100, StartNote 62 100, StopNote 60]"]
  by (simp only: retrigger_table_reachable)

section \<open>The equal-tempered scale\<close>

text \<open>
  Consecutive notes differ by the factor \<open>2 powr (1 / 12)\<close>, which is above 1.05: the order
  of the frequencies does not hinge on the last digits of the arithmetic.
\<close>

lemma midiNoteToFrequency_semitone:
  "0 < n \<Longrightarrow> midiNoteToFrequency (n + 1) = 2 powr (1 / 12) * midiNoteToFrequency n"
proof -
  assume "0 < n"
  have "real_of_int (n + 1 - 69) / 12 = 1 / 12 + real_of_int (n - 69) / 12"
    by (simp add: field_simps)
  then have "(2::real) powr (real_of_int (n + 1 - 69) / 12) =
      2 powr (1 / 12) * 2 powr (real_of_int (n - 69) / 12)"
    by (simp only: powr_add)
  then show ?thesis using \<open>0 < n\<close> by (simp add: midiNoteToFrequency_def)
qed

lemma semitone_ratio_gt: "(21 / 20 :: real) < 2 powr (1 / 12)"
proof -
  have lt: "(21 / 20 :: real) ^ 12 < 2" by (simp add: power_divide)
  have "(21 / 20 :: real) powr 12 = (21 / 20) ^ 12"
    by (rule powr_numeral) simp
  then have "((21 / 20 :: real) ^ 12) powr (1 / 12) = ((21 / 20) powr 12) powr (1 / 12)"
    by simp
  also have "\<dots> = (21 / 20) powr (12 * (1 / 12))"
    by (rule powr_powr)
  also have "\<dots> = 21 / 20" by simp
  finally have e: "((21 / 20 :: real) ^ 12) powr (1 / 12) = 21 / 20" .
  have "((21 / 20 :: real) ^ 12) powr (1 / 12) < 2 powr (1 / 12)"
    using lt by (intro powr_less_mono2) simp_all
  then show ?thesis by (simp only: e)
qed

lemma midiNoteToFrequency_step:
  assumes "0 < n"
  shows "21 / 20 * midiNoteToFrequency n < midiNoteToFrequency (n + 1)"
proof -
  have "0 < midiNoteToFrequency n" using assms by (simp add: midiNoteToFrequency_pos_iff)
  then have "21 / 20 * midiNoteToFrequency n < 2 powr (1 / 12) * midiNoteToFrequency n"
    using semitone_ratio_gt by simp
  then show ?thesis using assms by (simp add: midiNoteToFrequency_semitone)
qed

text \<open>
  Any function within one percent of \<open>midiNoteToFrequency\<close> on the notes 1 to 127 is
  strictly increasing there as well.
\<close>

lemma frequency_order_robust:
  fixes g :: "int \<Rightarrow> real"
  assumes close: "\<And>n. 1 \<le> n \<Longrightarrow> n \<le> 127 \<Longrightarrow>
      \<bar>g n - midiNoteToFrequency n\<bar> \<le> midiNoteToFrequency n / 100"
    and "1 \<le> m" and "m < n" and "n \<le> 127"
  shows "g m < g n"
proof -
  have step: "g k < g (k + 1)" if k: "1 \<le> k" "k + 1 \<le> 127" for k
  proof -
    have p: "0 < midiNoteToFrequency k" using k by (simp add: midiNoteToFrequency_pos_iff)
    have "g k \<le> midiNoteToFrequency k + midiNoteToFrequency k / 100"
      using close [of k] k by linarith
    also have "\<dots> < 99 / 100 * (21 / 20 * midiNoteToFrequency k)"
      using p by simp
    also have "\<dots> < 99 / 100 * midiNoteToFrequency (k + 1)"
      using midiNoteToFrequency_step [of k] k by simp
    also have "\<dots> \<le> g (k + 1)"
      using close [of "k + 1"] k by linarith
    finally show ?thesis .
  qed
  have "g m < g (m + 1 + int d)" if "m + 1 + int d \<le> 127" for d
    using that
  proof (induction d)
    case 0
    then show ?case using step [of m] assms(2) by simp
  next
    case (Suc d)
    then have "g m < g (m + 1 + int d)" by simp
    also have "\<dots> < g (m + 1 + int d + 1)"
      using step [of "m + 1 + int d"] Suc.prems assms(2) by simp
    finally show ?case by (simp add: add.assoc)
  qed
  from this [of "nat (n - m - 1)"] show ?thesis using assms by simp
qed

section \<open>Counting a half period down\<close>

lemma velocityToAmplitude_8: "velocityToAmplitude 8 = 1008"
  by (simp add: velocityToAmplitude_def constrain_def roundf_def)

lemma calculate_wavelength_440: "calculate_wavelength 440 = 50"
  by (simp add: calculate_wavelength_def roundf_def)

lemma midiNoteToFrequency_69: "midiNoteToFrequency 69 = 440"
  by (simp add: midiNoteToFrequency_def)

lemma first_startNote_table:
  "fst (startNote n v init_voices) =
     (replicate SYNTH_MAX_VOICES default_VoiceState)[0 := startNote_claim n v default_VoiceState]"
  by (simp add: startNote_unfold startNote_release_def findVoicePlayingNote_unsafe_init
      findFreeVoice_unsafe_init) (simp add: init_voices_eq)

lemma first_note_69_table:
  "run_calls [StartNote 69 8] =
     (replicate SYNTH_MAX_VOICES default_VoiceState)
       [0 := \<lparr>isActive = True, midiNoteNumber = 69, frequency = 440, targetAmplitude = 1008,
              currentOutput = 1008, wavelength = 50, timeAtLevelRemaining = 50\<rparr>]"
  by (simp add: run_calls_def first_startNote_table startNote_claim_def default_VoiceState_def
        velocityToAmplitude_8 calculate_wavelength_440 midiNoteToFrequency_69)


lemma countdown_step:
  assumes "t \<noteq> 0"
  shows "fst (audioTaskRunner_iteration (countdown_table t)) = countdown_table (t - 1)"
proof (rule nth_equalityI)
  show "length (fst (audioTaskRunner_iteration (countdown_table t))) = length (countdown_table (t - 1))"
    by (simp add: countdown_table_def)
next
  fix i assume "i < length (fst (audioTaskRunner_iteration (countdown_table t)))"
  then have i: "i < SYNTH_MAX_VOICES" by (simp add: countdown_table_def)
  have len: "length (countdown_table t) = SYNTH_MAX_VOICES" by (simp add: countdown_table_def)
  show "fst (audioTaskRunner_iteration (countdown_table t)) ! i = countdown_table (t - 1) ! i"
  proof (cases "i = 0")
    case True
    then show ?thesis
      using assms
      by (simp add: audioTaskRunner_iteration_nth countdown_table_def
          update_square_wave_cases)
  next
    case False
    then show ?thesis
      using i
      by (simp add: audioTaskRunner_iteration_nth countdown_table_def
          default_VoiceState_def)
  qed
qed

lemma countdown_steps:
  "k \<le> 50 \<Longrightarrow>
   fold run_call (replicate k AudioIteration) (countdown_table 50) = countdown_table (of_nat (50 - k))"
proof (induction k)
  case 0
  then show ?case by simp
next
  case (Suc k)
  then have k: "k < 50" by simp
  have nz: "(of_nat (50 - k) :: 16 word) \<noteq> 0"
  proof
    assume "(of_nat (50 - k) :: 16 word) = 0"
    then have "2 ^ 16 dvd 50 - k" by (simp add: word_of_nat_eq_0_iff)
    then have "(2::nat) ^ 16 \<le> 50 - k" using k by (intro dvd_imp_le) simp_all
    then show False by simp
  qed
  have "50 - k = Suc (50 - Suc k)" using k by simp
  then have "(of_nat (50 - k) :: 16 word) = of_nat (50 - Suc k) + 1"
    by (simp only: of_nat_Suc add.commute)
  then have dec: "(of_nat (50 - k) :: 16 word) - 1 = of_nat (50 - Suc k)" by simp
  have "replicate (Suc k) AudioIteration = replicate k AudioIteration @ [AudioIteration]"
    by (simp add: replicate_append_same)
  then have "fold run_call (replicate (Suc k) AudioIteration) (countdown_table 50) =
      run_call AudioIteration (fold run_call (replicate k AudioIteration) (countdown_table 50))"
    by (simp only: fold_append fold_simps o_apply id_apply)
  also have "\<dots> = fst (audioTaskRunner_iteration (countdown_table (of_nat (50 - k))))"
    using Suc by simp
  also have "\<dots> = countdown_table (of_nat (50 - Suc k))"
    by (simp only: countdown_step [OF nz] dec)
  finally show ?case .
qed


lemma one_voice_table_reachable:
  "run_calls (StartNote 69 8 # replicate 50 AudioIteration) = one_voice_table"
proof -
  have "run_calls (StartNote 69 8 # replicate 50 AudioIteration) =
      fold run_call (replicate 50 AudioIteration) (run_calls [StartNote 69 8])"
    by (simp only: run_calls_def fold_simps o_apply)
  also have "run_calls [StartNote 69 8] = countdown_table 50"
    by (simp only: first_note_69_table countdown_table_def)
  also have "fold run_call (replicate 50 AudioIteration) (countdown_table 50) =
      countdown_table (of_nat (50 - 50))"
    by (rule countdown_steps) simp
  also have "\<dots> = one_voice_table"
    by (simp add: countdown_table_def one_voice_table_def)
  finally show ?thesis .
qed

section \<open>The song at 150 beats per minute\<close>

lemma fast_player_started:
  "fast_player =
     start fast_flash 1100 (snd (loadSong (Some fast_song) (init MidiPlayer_new)))"
proof -
  let ?l = "snd (loadSong (Some fast_song) (init MidiPlayer_new))"
  have l: "?l =
     \<lparr>synth = True, current_song_data_ptr = 0x3F400000, current_event_count = 3,
      current_bpm = 150, is_playing = False, current_event_index = 0,
      next_event_time_ms = 0, millis_per_tick = 8738133 / 2097152\<rparr>"
    using tick_length_150
    by (simp add: loadSong_def fast_song_def Let_def init_def MidiPlayer_new_def
        calculateTimingFactors_def)
  have "convertTicksToMillis 96 (?l\<lparr>current_event_index := 0, is_playing := True\<rparr>) = 400"
    by (rule delays_150) (simp add: l)
  then show ?thesis
    by (simp add: start_def Let_def pgm_read_uint16_big_endian_def)
      (simp add: l fast_player_def fast_flash_def)
qed

lemma fast_player_first_update:
  "fst (snd (update fast_flash 1500 fast_player voices)) = fast_player_1"
proof -
  have "convertTicksToMillis 15 (fast_player\<lparr>current_event_index := 1\<rparr>) = 62"
    by (rule delays_150) (simp add: fast_player_def)
  then show ?thesis
    by (simp add: update_def Let_def scheduleNextEvent_def fast_player_1_def
        current_event_address_def pgm_read_uint16_big_endian_def fast_player_def fast_flash_def)
qed

lemma fast_player_second_update:
  "next_event_time_ms (fst (snd (update fast_flash 1562 fast_player_1 voices))) = 1575"
proof -
  have "convertTicksToMillis 3 (fast_player_1\<lparr>current_event_index := 2\<rparr>) = 13"
    by (rule delays_150) (simp add: fast_player_1_def fast_player_def)
  then show ?thesis
    by (simp add: update_def Let_def scheduleNextEvent_def fast_player_1_def
        current_event_address_def pgm_read_uint16_big_endian_def fast_player_def fast_flash_def
        word_le_nat_alt word_less_nat_alt)
qed

section \<open>Properties of the synthesizer and the player\<close>

subsection \<open>C1: the per-voice update of the render loop\<close>

text \<open>
  C1 as stated: for an active voice exactly one of two things happens in an iteration;
  at countdown zero the output flips and the countdown is reset to \<open>wavelength\<close>,
  otherwise the countdown is decremented. The code does both at countdown zero: the
  guarded decrement is a second \<open>if\<close>, not an \<open>else\<close>. In \<open>one_voice_table\<close>, the table
  fifty render iterations after a note-on for note 69, the voice has countdown 0 and half
  period 50; it leaves the next iteration with countdown 49, not 50.
\<close>

theorem C1_counterexample:
  "run_calls (StartNote 69 8 # replicate 50 AudioIteration) = one_voice_table \<and>
   isActive (one_voice_table ! 0) \<and> timeAtLevelRemaining (one_voice_table ! 0) = 0 \<and>
   wavelength (one_voice_table ! 0) = 50 \<and>
   timeAtLevelRemaining (fst (audioTaskRunner_iteration one_voice_table) ! 0) = 49"
  by (simp add: one_voice_table_reachable)
    (simp add: audioTaskRunner_iteration_nth update_square_wave_def one_voice_table_def)

text \<open>
  C1 (amended): in one iteration of the render loop every inactive voice is left as it is.
  An active voice whose countdown is zero gets its output flipped (to \<open>- targetAmplitude\<close>
  if it was \<open>targetAmplitude\<close>, to \<open>targetAmplitude\<close> otherwise) and its countdown
  reloaded with \<open>wavelength\<close> and, in the same iteration, decremented: it ends at
  \<open>wavelength - 1\<close> (at 0 for a zero wavelength), so that each level lasts exactly
  \<open>wavelength\<close> samples. An active voice whose countdown is positive only has it
  decremented by one.
\<close>

theorem C1_voice_update:
  "length voices = SYNTH_MAX_VOICES \<Longrightarrow> i < SYNTH_MAX_VOICES \<Longrightarrow>
   fst (audioTaskRunner_iteration voices) ! i =
     (let v = voices ! i in
      if \<not> isActive v then v
      else if timeAtLevelRemaining v = 0
      then v\<lparr>currentOutput :=
                (if currentOutput v = targetAmplitude v then - targetAmplitude v
                 else targetAmplitude v),
              timeAtLevelRemaining := (if wavelength v = 0 then 0 else wavelength v - 1)\<rparr>
      else v\<lparr>timeAtLevelRemaining := timeAtLevelRemaining v - 1\<rparr>)"
proof -
  assume len: "length voices = SYNTH_MAX_VOICES" and i: "i < SYNTH_MAX_VOICES"
  have "fst (audioTaskRunner_iteration voices) ! i =
      (if isActive (voices ! i) then update_square_wave (voices ! i) else voices ! i)"
    by (rule audioTaskRunner_iteration_nth [OF len i])
  then show ?thesis
    by (simp add: update_square_wave_cases Let_def)
qed

theorem C1_voice_update_witness:
  "length one_voice_table = SYNTH_MAX_VOICES \<and> (0::nat) < SYNTH_MAX_VOICES \<and>
   fst (audioTaskRunner_iteration one_voice_table) ! 0 =
     \<lparr>isActive = True, midiNoteNumber = 69, frequency = 440, targetAmplitude = 1008,
      currentOutput = - 1008, wavelength = 50, timeAtLevelRemaining = 49\<rparr>"
  using C1_voice_update [of one_voice_table 0]
  by (simp add: one_voice_table_def)

subsection \<open>C2: a load that fails\<close>

text \<open>
  C2 as stated: after any failed \<open>loadSong\<close> the data pointer, the event count, the tempo,
  the tick length, the event index and the playing flag are what they were before the call.
  The code reads the three fields of the song into the session before it validates them,
  and on failure resets the pointer and the count ("ensure invalid state"): loading a song
  without events into the session that holds the example song leaves pointer 0, count 0
  and the tempo 90 of the rejected song.
\<close>

theorem C2_counterexample:
  "fst (loadSong (Some empty_song) loaded_player) = False \<and>
   current_song_data_ptr loaded_player = 0x3F400000 \<and>
   current_song_data_ptr (snd (loadSong (Some empty_song) loaded_player)) = 0 \<and>
   current_event_count loaded_player = 2 \<and>
   current_event_count (snd (loadSong (Some empty_song) loaded_player)) = 0 \<and>
   current_bpm loaded_player = 120 \<and>
   current_bpm (snd (loadSong (Some empty_song) loaded_player)) = 90"
  by (simp add: loaded_player_def loadSong_def example_song_def empty_song_def Let_def
      init_def MidiPlayer_new_def)

text \<open>
  C2 (amended): \<open>loadSong\<close> with a null song reference returns false and leaves the whole
  session as it was. \<open>loadSong\<close> with a song whose data pointer is null or whose event count
  is zero returns false and leaves the session without a song: the data pointer is null and
  the event count is zero afterwards, while the tick length, the event index, the playing
  flag, the deadline and the synthesizer reference keep their values.
\<close>

theorem C2_failed_load:
  "loadSong None p = (False, p) \<and>
   (midi_data_ptr song = 0 \<or> event_count song = 0 \<longrightarrow>
      fst (loadSong (Some song) p) = False \<and>
      current_song_data_ptr (snd (loadSong (Some song) p)) = 0 \<and>
      current_event_count (snd (loadSong (Some song) p)) = 0 \<and>
      millis_per_tick (snd (loadSong (Some song) p)) = millis_per_tick p \<and>
      current_event_index (snd (loadSong (Some song) p)) = current_event_index p \<and>
      is_playing (snd (loadSong (Some song) p)) = is_playing p \<and>
      next_event_time_ms (snd (loadSong (Some song) p)) = next_event_time_ms p \<and>
      synth (snd (loadSong (Some song) p)) = synth p)"
proof -
  have null_ref: "loadSong None p = (False, p)"
    by (simp add: loadSong_def)
  have rejected: "loadSong (Some song) p =
      (False, p\<lparr>current_song_data_ptr := 0, current_event_count := 0,
                 current_bpm := bpm song\<rparr>)"
    if "midi_data_ptr song = 0 \<or> event_count song = 0"
    using that by (auto simp: loadSong_def Let_def)
  show ?thesis
    using null_ref rejected by auto
qed

theorem C2_failed_load_witness:
  "event_count empty_song = 0 \<and>
   fst (loadSong (Some empty_song) loaded_player) = False \<and>
   current_song_data_ptr (snd (loadSong (Some empty_song) loaded_player)) = 0 \<and>
   current_event_count (snd (loadSong (Some empty_song) loaded_player)) = 0 \<and>
   millis_per_tick (snd (loadSong (Some empty_song) loaded_player)) = 10922667 / 2097152 \<and>
   current_event_index (snd (loadSong (Some empty_song) loaded_player)) = 0 \<and>
   is_playing (snd (loadSong (Some empty_song) loaded_player)) = False"
proof -
  have e: "event_count empty_song = 0" by (simp add: empty_song_def)
  have l: "millis_per_tick loaded_player = 10922667 / 2097152"
    "current_event_index loaded_player = 0" "is_playing loaded_player = False"
    by (simp_all add: loaded_player_eq)
  show ?thesis
    using C2_failed_load [of loaded_player empty_song] e l by simp
qed

subsection \<open>C3: silence with no voice, the raw waveform with one voice\<close>

text \<open>
  C3: in a render iteration over a table with no active voice the emitted sample is 0.
  In a render iteration over a table with exactly one active voice the emitted sample is
  that voice's \<open>currentOutput\<close> (as the iteration leaves it), for every 16-bit value of
  it: dividing by one voice and clamping to the 16-bit range change nothing. Moreover,
  in every table reached from the initialised one by calls of \<open>startNote\<close> and
  \<open>stopNote\<close> and by render iterations, the magnitude of every \<open>currentOutput\<close> is at
  most \<open>SYNTH_MAX_NOTE_AMPLITUDE\<close>.
\<close>

theorem C3_silence_and_single_voice:
  assumes "length voices = SYNTH_MAX_VOICES"
  shows "((\<forall>i<SYNTH_MAX_VOICES. \<not> isActive (voices ! i)) \<longrightarrow>
            snd (audioTaskRunner_iteration voices) = 0) \<and>
         (\<forall>k<SYNTH_MAX_VOICES.
            isActive (voices ! k) \<and> (\<forall>j<SYNTH_MAX_VOICES. j \<noteq> k \<longrightarrow> \<not> isActive (voices ! j)) \<longrightarrow>
            snd (audioTaskRunner_iteration voices) =
              currentOutput (fst (audioTaskRunner_iteration voices) ! k)) \<and>
         (\<forall>calls. \<forall>i<SYNTH_MAX_VOICES.
            \<bar>sint (currentOutput (run_calls calls ! i))\<bar> \<le> SYNTH_MAX_NOTE_AMPLITUDE)"
proof (intro conjI impI allI)
  assume none: "\<forall>i<SYNTH_MAX_VOICES. \<not> isActive (voices ! i)"
  have "(\<Sum>i\<leftarrow>[0..<SYNTH_MAX_VOICES]. if isActive (voices ! i) then 1 else 0) = (0::int)"
    using none by (intro sum_list_all_zero) simp
  then show "snd (audioTaskRunner_iteration voices) = 0"
    by (simp only: audioTaskRunner_iteration_sample [OF assms] mix_sample_none)
next
  fix k
  assume k: "k < SYNTH_MAX_VOICES"
    and one: "isActive (voices ! k) \<and> (\<forall>j<SYNTH_MAX_VOICES. j \<noteq> k \<longrightarrow> \<not> isActive (voices ! j))"
  let ?out = "currentOutput (update_square_wave (voices ! k))"
  have cnt: "(\<Sum>i\<leftarrow>[0..<SYNTH_MAX_VOICES]. if isActive (voices ! i) then 1 else 0) = (1::int)"
    using k one
    by (subst sum_list_single [where k = k]) auto
  have sm: "(\<Sum>i\<leftarrow>[0..<SYNTH_MAX_VOICES]. if isActive (voices ! i)
            then sint (currentOutput (update_square_wave (voices ! i))) else 0) = sint ?out"
    using k one
    by (subst sum_list_single [where k = k]) auto
  have "snd (audioTaskRunner_iteration voices) = ?out"
    by (simp only: audioTaskRunner_iteration_sample [OF assms] cnt sm mix_sample_one)
  moreover have "fst (audioTaskRunner_iteration voices) ! k = update_square_wave (voices ! k)"
    using audioTaskRunner_iteration_nth [OF assms k] one by simp
  ultimately show "snd (audioTaskRunner_iteration voices) =
              currentOutput (fst (audioTaskRunner_iteration voices) ! k)"
    by simp
next
  fix calls i
  assume "i < SYNTH_MAX_VOICES"
  then have "amplitude_bounded (run_calls calls ! i)"
    using voices_inv_run_calls [of calls] by (simp add: voices_inv_def)
  then show "\<bar>sint (currentOutput (run_calls calls ! i))\<bar> \<le> SYNTH_MAX_NOTE_AMPLITUDE"
    by (simp add: amplitude_bounded_def)
qed

theorem C3_witness:
  "length one_voice_table = SYNTH_MAX_VOICES \<and> isActive (one_voice_table ! 0) \<and>
   snd (audioTaskRunner_iteration one_voice_table) = - 1008 \<and>
   length init_voices = SYNTH_MAX_VOICES \<and>
   snd (audioTaskRunner_iteration init_voices) = 0"
proof -
  have len: "length one_voice_table = SYNTH_MAX_VOICES" by (simp add: one_voice_table_def)
  have act: "isActive (one_voice_table ! 0)" by (simp add: one_voice_table_def)
  have "snd (audioTaskRunner_iteration one_voice_table) =
      currentOutput (fst (audioTaskRunner_iteration one_voice_table) ! 0)"
    using C3_silence_and_single_voice [OF len] act one_voice_table_others_inactive by simp
  also have "\<dots> = - 1008"
    by (simp add: audioTaskRunner_iteration_nth update_square_wave_cases one_voice_table_def)
  finally have one: "snd (audioTaskRunner_iteration one_voice_table) = - 1008" .
  have len0: "length init_voices = SYNTH_MAX_VOICES" by (simp add: init_voices_eq)
  have "\<forall>i<SYNTH_MAX_VOICES. \<not> isActive (init_voices ! i)"
    by (simp add: init_voices_eq default_VoiceState_def)
  then have "snd (audioTaskRunner_iteration init_voices) = 0"
    using C3_silence_and_single_voice [OF len0] by simp
  with len act one len0 show ?thesis by simp
qed

subsection \<open>C4: a note-on with velocity 0 is a note-off\<close>

text \<open>
  C4: for every note \<open>n\<close> and every voice table, the player's delivery of a note-on event
  for \<open>n\<close> with velocity 0 leaves the same table as its delivery of a note-off event for
  \<open>n\<close> (whatever the velocity byte of the note-off): both are \<open>stopNote n\<close>. Afterwards
  the voice that played \<open>n\<close> is inactive, and in a table with at most one active voice per
  note (every reachable table is one) no active voice plays \<open>n\<close>.
\<close>

theorem C4_note_on_velocity_zero_is_note_off:
  assumes "length voices = SYNTH_MAX_VOICES"
    and "synth p"
    and "flash_on (current_event_address p + 2) = 1"
    and "flash_on (current_event_address p + 3) = n"
    and "flash_on (current_event_address p + 4) = 0"
    and "flash_off (current_event_address p + 2) = 0"
    and "flash_off (current_event_address p + 3) = n"
  shows "processCurrentEvent flash_on p voices = processCurrentEvent flash_off p voices \<and>
         processCurrentEvent flash_on p voices = stopNote (uint n) voices \<and>
         (\<forall>i. findVoicePlayingNote_unsafe voices (uint n) = Some i \<longrightarrow>
              \<not> isActive (processCurrentEvent flash_on p voices ! i)) \<and>
         (notes_unique voices \<longrightarrow>
            findVoicePlayingNote_unsafe (processCurrentEvent flash_on p voices) (uint n) = None)"
proof -
  have on: "processCurrentEvent flash_on p voices = stopNote (uint n) voices"
    using assms(2-5) by (simp add: processCurrentEvent_def Let_def)
  have off: "processCurrentEvent flash_off p voices = stopNote (uint n) voices"
    using assms(2,6,7) by (simp add: processCurrentEvent_def Let_def)
  show ?thesis
    using assms(1) by (simp add: on off stopNote_first_player_off stopNote_no_player)
qed

theorem C4_witness:
  "length retrigger_table = SYNTH_MAX_VOICES \<and> synth example_player \<and>
   note_on_zero_flash (current_event_address example_player + 2) = 1 \<and>
   note_on_zero_flash (current_event_address example_player + 3) = 62 \<and>
   note_on_zero_flash (current_event_address example_player + 4) = 0 \<and>
   note_off_flash (current_event_address example_player + 2) = 0 \<and>
   note_off_flash (current_event_address example_player + 3) = 62 \<and>
   findVoicePlayingNote_unsafe retrigger_table 62 = Some 1 \<and>
   notes_unique retrigger_table \<and>
   processCurrentEvent note_on_zero_flash example_player retrigger_table =
     processCurrentEvent note_off_flash example_player retrigger_table \<and>
   \<not> isActive (processCurrentEvent note_on_zero_flash example_player retrigger_table ! 1) \<and>
   findVoicePlayingNote_unsafe
     (processCurrentEvent note_on_zero_flash example_player retrigger_table) 62 = None"
proof -
  have len: "length retrigger_table = SYNTH_MAX_VOICES" by (simp add: retrigger_table_def)
  have s: "synth example_player" by (simp add: example_player_def)
  have f: "note_on_zero_flash (current_event_address example_player + 2) = 1"
    "note_on_zero_flash (current_event_address example_player + 3) = 62"
    "note_on_zero_flash (current_event_address example_player + 4) = 0"
    "note_off_flash (current_event_address example_player + 2) = 0"
    "note_off_flash (current_event_address example_player + 3) = 62"
    by (simp_all add: note_on_zero_flash_def note_off_flash_def current_event_address_def
        example_player_def)
  have u: "notes_unique retrigger_table" using retrigger_table_inv by (simp add: voices_inv_def)
  show ?thesis
    using C4_note_on_velocity_zero_is_note_off [OF len s f] retrigger_table_player u len s f
    by auto
qed

subsection \<open>C5: at most one active voice per note\<close>

text \<open>
  C5: in every voice table reached from the initialised one by calls of \<open>startNote\<close> and
  \<open>stopNote\<close> (interleaved with any number of render iterations), no two slots are
  active with the same note number. If note \<open>n\<close> is active in such a table, a further
  note-on \<open>startNote n v\<close> (a note-on carries a velocity \<open>v > 0\<close>; velocity 0 is a
  note-off) leaves exactly one active slot for \<open>n\<close>, and that slot is the freshly started
  voice: its output is the new amplitude and its countdown is a full half period.
\<close>

theorem C5_one_voice_per_note:
  "(\<forall>i<SYNTH_MAX_VOICES. \<forall>j<SYNTH_MAX_VOICES.
      isActive (run_calls calls ! i) \<and> isActive (run_calls calls ! j) \<and>
      midiNoteNumber (run_calls calls ! i) = midiNoteNumber (run_calls calls ! j) \<longrightarrow> i = j) \<and>
   (\<forall>n v. 0 < v \<and>
      (\<exists>i<SYNTH_MAX_VOICES. isActive (run_calls calls ! i) \<and>
                             midiNoteNumber (run_calls calls ! i) = n) \<longrightarrow>
      (\<exists>!k. k < SYNTH_MAX_VOICES \<and>
            isActive (fst (startNote n v (run_calls calls)) ! k) \<and>
            midiNoteNumber (fst (startNote n v (run_calls calls)) ! k) = n) \<and>
      (\<forall>k<SYNTH_MAX_VOICES.
            isActive (fst (startNote n v (run_calls calls)) ! k) \<and>
            midiNoteNumber (fst (startNote n v (run_calls calls)) ! k) = n \<longrightarrow>
            currentOutput (fst (startNote n v (run_calls calls)) ! k) = velocityToAmplitude v \<and>
            timeAtLevelRemaining (fst (startNote n v (run_calls calls)) ! k) =
              wavelength (fst (startNote n v (run_calls calls)) ! k)))"
proof -
  let ?vs = "run_calls calls"
  have inv: "voices_inv ?vs" by (rule voices_inv_run_calls)
  have A: "\<forall>i<SYNTH_MAX_VOICES. \<forall>j<SYNTH_MAX_VOICES.
      isActive (?vs ! i) \<and> isActive (?vs ! j) \<and>
      midiNoteNumber (?vs ! i) = midiNoteNumber (?vs ! j) \<longrightarrow> i = j"
    using inv unfolding voices_inv_def notes_unique_def by blast
  have B: "\<exists>!k. k < SYNTH_MAX_VOICES \<and> isActive (fst (startNote n v ?vs) ! k) \<and>
        midiNoteNumber (fst (startNote n v ?vs) ! k) = n"
    if a: "0 < v \<and> (\<exists>i<SYNTH_MAX_VOICES. isActive (?vs ! i) \<and> midiNoteNumber (?vs ! i) = n)"
    for n v
  proof -
    let ?new = "fst (startNote n v ?vs)"
    have ex: "\<exists>k<SYNTH_MAX_VOICES. isActive (?new ! k) \<and> midiNoteNumber (?new ! k) = n"
      using a startNote_retrigger [OF inv, of v _ n] by blast
    have "notes_unique ?new"
      using voices_inv_startNote [OF inv, of n v] by (simp add: voices_inv_def)
    then have uniq: "\<And>k l. k < SYNTH_MAX_VOICES \<Longrightarrow> l < SYNTH_MAX_VOICES \<Longrightarrow>
        isActive (?new ! k) \<and> midiNoteNumber (?new ! k) = n \<Longrightarrow>
        isActive (?new ! l) \<and> midiNoteNumber (?new ! l) = n \<Longrightarrow> k = l"
      unfolding notes_unique_def by simp
    show ?thesis using ex uniq by blast
  qed
  have C: "currentOutput (fst (startNote n v ?vs) ! k) = velocityToAmplitude v \<and>
        timeAtLevelRemaining (fst (startNote n v ?vs) ! k) =
          wavelength (fst (startNote n v ?vs) ! k)"
    if k: "k < SYNTH_MAX_VOICES"
      and p: "isActive (fst (startNote n v ?vs) ! k) \<and>
              midiNoteNumber (fst (startNote n v ?vs) ! k) = n"
    for n v k
  proof -
    have "0 < n \<and> 0 < v \<and>
       fst (startNote n v ?vs) ! k = startNote_claim n v (startNote_release n ?vs ! k)"
      using startNote_player_is_fresh [OF inv k, of n v] p by simp
    then show ?thesis by (simp add: startNote_claim_started)
  qed
  show ?thesis using A B C by blast
qed

theorem C5_witness:
  "isActive (run_calls [StartNote 60 100] ! 0) \<and>
   midiNoteNumber (run_calls [StartNote 60 100] ! 0) = 60 \<and>
   (\<exists>!k. k < SYNTH_MAX_VOICES \<and>
      isActive (fst (startNote 60 100 (run_calls [StartNote 60 100])) ! k) \<and>
      midiNoteNumber (fst (startNote 60 100 (run_calls [StartNote 60 100])) ! k) = 60)"
proof -
  have 1: "isActive (run_calls [StartNote 60 100] ! 0) \<and>
      midiNoteNumber (run_calls [StartNote 60 100] ! 0) = 60"
    by (simp add: first_startNote)
  then have "\<exists>i<SYNTH_MAX_VOICES. isActive (run_calls [StartNote 60 100] ! i) \<and>
      midiNoteNumber (run_calls [StartNote 60 100] ! i) = 60"
    by (intro exI [of _ 0]) simp
  then show ?thesis
    using 1 C5_one_voice_per_note [of "[StartNote 60 100]"] by simp
qed

subsection \<open>C6: a note-on for a full table is dropped\<close>

text \<open>
  C6: if all \<open>SYNTH_MAX_VOICES\<close> slots are active and none of them plays note \<open>n\<close>, then
  \<open>startNote n v\<close> returns the table unchanged, slot by slot and field by field, and
  prints the warning about the missing free voice and nothing else.
\<close>

theorem C6_full_pool_drops_note:
  assumes "length voices = SYNTH_MAX_VOICES"
    and "\<forall>i<SYNTH_MAX_VOICES. isActive (voices ! i) \<and> midiNoteNumber (voices ! i) \<noteq> n"
  shows "startNote n v voices = (voices, [Warning_no_free_voices])"
proof -
  have "findVoicePlayingNote_unsafe voices n = None"
    using assms(2) by (simp add: findVoicePlayingNote_unsafe_None)
  moreover have "findFreeVoice_unsafe voices = None"
    using assms(2) by (simp add: findFreeVoice_unsafe_None)
  ultimately show ?thesis by (simp add: startNote_def)
qed

theorem C6_witness:
  "length full_table = SYNTH_MAX_VOICES \<and> isActive (full_table ! 7) \<and>
   midiNoteNumber (full_table ! 7) = 67 \<and>
   startNote 72 100 full_table = (full_table, [Warning_no_free_voices])"
proof -
  have "\<forall>i<SYNTH_MAX_VOICES. isActive (full_table ! i) \<and> midiNoteNumber (full_table ! i) \<noteq> 72"
    by (simp add: full_table_def)
  then show ?thesis
    using C6_full_pool_drops_note [of full_table 72 100] by (simp add: full_table_def)
qed

subsection \<open>C7: the tick length and the deadline of the next event\<close>

text \<open>
  C7 as stated: \<open>millis_per_tick\<close> equals \<open>(60000 / bpm) / TICKS_PER_QUARTER_NOTE\<close>, and
  the deadline set after an event is the processing time plus
  \<open>round (nextDeltaTicks * millisPerTick)\<close>. The code computes both in single precision.
  At 150 beats per minute the stored tick length is \<open>8738133 / 2097152\<close>, not \<open>25 / 6\<close>.
  For a following delta of 15 ticks the code schedules 62 ms after the processing time,
  where the formula of the claim gives 63; for a following delta of 3 ticks it schedules
  13 ms after, where the exact product with the stored tick length rounds to 12.
\<close>

theorem C7_counterexample:
  "millis_per_tick (snd (loadSong (Some fast_song) (init MidiPlayer_new))) = 8738133 / 2097152 \<and>
   (60000 / bpm fast_song) / real TICKS_PER_QUARTER_NOTE = 25 / 6 \<and>
   millis_per_tick (snd (loadSong (Some fast_song) (init MidiPlayer_new))) \<noteq>
     (60000 / bpm fast_song) / real TICKS_PER_QUARTER_NOTE \<and>
   fast_player = start fast_flash 1100 (snd (loadSong (Some fast_song) (init MidiPlayer_new))) \<and>
   next_event_time_ms (fst (snd (update fast_flash 1500 fast_player init_voices))) = 1562 \<and>
   (1500 :: 32 word) +
     word_of_int (roundf (15 * ((60000 / bpm fast_song) / real TICKS_PER_QUARTER_NOTE))) = 1563 \<and>
   fst (snd (update fast_flash 1500 fast_player init_voices)) = fast_player_1 \<and>
   next_event_time_ms (fst (snd (update fast_flash 1562 fast_player_1 init_voices))) = 1575 \<and>
   (1562 :: 32 word) + word_of_int (roundf (3 * millis_per_tick fast_player_1)) = 1574"
proof -
  have m: "millis_per_tick (snd (loadSong (Some fast_song) (init MidiPlayer_new))) =
      8738133 / 2097152"
    using tick_length_150 by (simp add: loadSong_def fast_song_def Let_def)
  have f: "(60000 / bpm fast_song) / real TICKS_PER_QUARTER_NOTE = 25 / 6"
    by (simp add: fast_song_def)
  have r1: "(1500 :: 32 word) +
     word_of_int (roundf (15 * ((60000 / bpm fast_song) / real TICKS_PER_QUARTER_NOTE))) = 1563"
    by (simp add: fast_song_def roundf_def)
  have r2: "(1562 :: 32 word) + word_of_int (roundf (3 * millis_per_tick fast_player_1)) = 1574"
    by (simp add: fast_player_1_def fast_player_def roundf_def)
  have d1: "next_event_time_ms (fst (snd (update fast_flash 1500 fast_player init_voices))) = 1562"
    by (simp add: fast_player_first_update fast_player_1_def)
  have ne: "millis_per_tick (snd (loadSong (Some fast_song) (init MidiPlayer_new))) \<noteq>
     (60000 / bpm fast_song) / real TICKS_PER_QUARTER_NOTE"
    unfolding m f by simp
  show ?thesis
    by (intro conjI m f ne fast_player_started d1 r1 fast_player_first_update
        fast_player_second_update r2)
qed

text \<open>
  C7 (amended): after a successful \<open>loadSong\<close> with a tempo that is at most 0 or at least
  \<open>2 powi (- 100)\<close> (so that no division overflows), \<open>millis_per_tick\<close> is the
  single-precision value of \<open>((60000000 / bpm) / 1000) / TICKS_PER_QUARTER_NOTE\<close>, each of
  the three divisions rounded to the nearest float, where a tempo of at most 0 counts as
  120; it differs from \<open>(60000 / bpm) / TICKS_PER_QUARTER_NOTE\<close> by at most the fraction
  \<open>1 / 2 ^ 22\<close> of it. Whenever \<open>update\<close> processes an event (the player is playing, the
  deadline has passed, the index is below the event count) and another event remains after
  it, the new deadline is the time \<open>now\<close> of this call plus
  \<open>roundf (fl32 (nextDeltaTicks * millis_per_tick))\<close>, the product rounded to single
  precision before it is rounded to an integer, in the 32-bit arithmetic of
  \<open>unsigned long\<close> (for a tick length between 0 and 65536 ms, so that the delay fits);
  \<open>nextDeltaTicks\<close> is the big-endian delta time of the following event, and the old
  deadline does not enter.
\<close>

theorem C7_timing_single_precision:
  "(midi_data_ptr song \<noteq> 0 \<and> event_count song \<noteq> 0 \<and>
    (bpm song \<le> 0 \<or> 2 powi (- 100) \<le> bpm song \<and> bpm song < 2 powi 128) \<longrightarrow>
      millis_per_tick (snd (loadSong (Some song) q)) =
        fl32 (fl32 (fl32 (60000000 / (if bpm song \<le> 0 then 120 else bpm song)) / 1000) /
              real TICKS_PER_QUARTER_NOTE) \<and>
      \<bar>millis_per_tick (snd (loadSong (Some song) q)) -
        (60000 / (if bpm song \<le> 0 then 120 else bpm song)) / real TICKS_PER_QUARTER_NOTE\<bar>
        \<le> ((60000 / (if bpm song \<le> 0 then 120 else bpm song)) / real TICKS_PER_QUARTER_NOTE)
            / 2 ^ 22) \<and>
   (is_playing p \<and> next_event_time_ms p \<le> now \<and>
    current_event_index p < current_event_count p \<and>
    current_event_index p + 1 < current_event_count p \<and>
    0 \<le> millis_per_tick p \<and> millis_per_tick p \<le> 65536 \<longrightarrow>
      next_event_time_ms (fst (snd (update flash now p voices))) =
        now + word_of_int (roundf (fl32
          (real (unat (pgm_read_uint16_big_endian flash
                         (current_song_data_ptr p +
                          ucast (current_event_index p + 1) * of_nat BYTES_PER_EVENT)))
           * millis_per_tick p))))"
proof -
  let ?b = "if bpm song \<le> 0 then 120 else bpm song"
  have tick: "millis_per_tick (snd (loadSong (Some song) q)) =
        fl32 (fl32 (fl32 (60000000 / ?b) / 1000) / real TICKS_PER_QUARTER_NOTE)"
    if "midi_data_ptr song \<noteq> 0 \<and> event_count song \<noteq> 0"
    using that by (simp add: loadSong_success millis_per_tick_calculateTimingFactors)
  have close: "\<bar>fl32 (fl32 (fl32 (60000000 / ?b) / 1000) / real TICKS_PER_QUARTER_NOTE) -
        (60000 / ?b) / real TICKS_PER_QUARTER_NOTE\<bar>
        \<le> ((60000 / ?b) / real TICKS_PER_QUARTER_NOTE) / 2 ^ 22"
    if t: "bpm song \<le> 0 \<or> 2 powi (- 100) \<le> bpm song \<and> bpm song < 2 powi 128"
  proof -
    have "0 < ?b"
    proof (cases "bpm song \<le> 0")
      case True
      then show ?thesis by simp
    next
      case False
      then show ?thesis by simp
    qed
    moreover have "?b < 2 powi 128" using t by auto
    ultimately show ?thesis
      using tick_length_error [of ?b] by simp
  qed
  have deadline: "next_event_time_ms (fst (snd (update flash now p voices))) =
        now + word_of_int (roundf (fl32
          (real (unat (pgm_read_uint16_big_endian flash
                         (current_song_data_ptr p +
                          ucast (current_event_index p + 1) * of_nat BYTES_PER_EVENT)))
           * millis_per_tick p)))"
    if a: "is_playing p \<and> next_event_time_ms p \<le> now \<and>
      current_event_index p < current_event_count p \<and>
      current_event_index p + 1 < current_event_count p"
  proof -
    have "update flash now p voices =
       (True,
        scheduleNextEvent flash now (p\<lparr>current_event_index := current_event_index p + 1\<rparr>),
        processCurrentEvent flash p voices)"
      using a by (intro update_processes) simp_all
    then show ?thesis
      using a by (simp add: scheduleNextEvent_def Let_def convertTicksToMillis_def
          current_event_address_def)
  qed
  show ?thesis
    using tick close deadline by (simp del: of_nat_numeral)
qed

theorem C7_timing_single_precision_witness:
  "midi_data_ptr fast_song \<noteq> 0 \<and> event_count fast_song \<noteq> 0 \<and>
   2 powi (- 100) \<le> bpm fast_song \<and> bpm fast_song < 2 powi 128 \<and>
   millis_per_tick (snd (loadSong (Some fast_song) (init MidiPlayer_new))) = 8738133 / 2097152 \<and>
   \<bar>millis_per_tick (snd (loadSong (Some fast_song) (init MidiPlayer_new))) - 25 / 6\<bar>
     \<le> (25 / 6) / 2 ^ 22 \<and>
   is_playing fast_player \<and> next_event_time_ms fast_player \<le> 1500 \<and>
   current_event_index fast_player < current_event_count fast_player \<and>
   current_event_index fast_player + 1 < current_event_count fast_player \<and>
   0 \<le> millis_per_tick fast_player \<and> millis_per_tick fast_player \<le> 65536 \<and>
   next_event_time_ms (fst (snd (update fast_flash 1500 fast_player init_voices))) = 1562"
proof -
  have h1: "midi_data_ptr fast_song \<noteq> 0 \<and> event_count fast_song \<noteq> 0 \<and>
      (bpm fast_song \<le> 0 \<or> 2 powi (- 100) \<le> bpm fast_song \<and> bpm fast_song < 2 powi 128)"
    by (simp add: fast_song_def power_int_minus_divide)
  have h2: "is_playing fast_player \<and> next_event_time_ms fast_player \<le> 1500 \<and>
      current_event_index fast_player < current_event_count fast_player \<and>
      current_event_index fast_player + 1 < current_event_count fast_player \<and>
      0 \<le> millis_per_tick fast_player \<and> millis_per_tick fast_player \<le> 65536"
    by (simp add: fast_player_def)
  note T = C7_timing_single_precision
    [of fast_song "init MidiPlayer_new" fast_player 1500 fast_flash init_voices]
  have b: "(if bpm fast_song \<le> 0 then 120 else bpm fast_song) = 150"
    by (simp add: fast_song_def)
  from T h1 have
    "\<bar>millis_per_tick (snd (loadSong (Some fast_song) (init MidiPlayer_new))) -
        (60000 / (if bpm fast_song \<le> 0 then 120 else bpm fast_song)) /
        real TICKS_PER_QUARTER_NOTE\<bar>
        \<le> ((60000 / (if bpm fast_song \<le> 0 then 120 else bpm fast_song)) /
             real TICKS_PER_QUARTER_NOTE) / 2 ^ 22"
    by blast
  then have c: "\<bar>millis_per_tick (snd (loadSong (Some fast_song) (init MidiPlayer_new))) - 25 / 6\<bar>
     \<le> (25 / 6) / 2 ^ 22"
    unfolding b by simp
  have m: "millis_per_tick (snd (loadSong (Some fast_song) (init MidiPlayer_new))) =
      8738133 / 2097152"
    using tick_length_150 by (simp add: loadSong_def fast_song_def Let_def)
  have e: "pgm_read_uint16_big_endian fast_flash
        (current_song_data_ptr fast_player +
         ucast (current_event_index fast_player + 1) * of_nat BYTES_PER_EVENT) = 15"
    by (simp add: pgm_read_uint16_big_endian_def fast_player_def fast_flash_def)
  have "convertTicksToMillis 15 fast_player = 62"
    by (rule delays_150) (simp add: fast_player_def)
  then have k: "word_of_int (roundf (fl32 (real (unat (15 :: 16 word)) *
      millis_per_tick fast_player))) = (62 :: 32 word)"
    by (simp only: convertTicksToMillis_def)
  from T h2 have
    "next_event_time_ms (fst (snd (update fast_flash 1500 fast_player init_voices))) =
        1500 + word_of_int (roundf (fl32
          (real (unat (pgm_read_uint16_big_endian fast_flash
                         (current_song_data_ptr fast_player +
                          ucast (current_event_index fast_player + 1) * of_nat BYTES_PER_EVENT)))
           * millis_per_tick fast_player)))"
    by blast
  then have d: "next_event_time_ms (fst (snd (update fast_flash 1500 fast_player init_voices))) =
      1562"
    by (simp only: e k) simp
  have h1': "midi_data_ptr fast_song \<noteq> 0" "event_count fast_song \<noteq> 0"
    "2 powi (- 100) \<le> bpm fast_song" "bpm fast_song < 2 powi 128"
    by (simp_all add: fast_song_def power_int_minus_divide)
  have h2': "is_playing fast_player" "next_event_time_ms fast_player \<le> 1500"
    "current_event_index fast_player < current_event_count fast_player"
    "current_event_index fast_player + 1 < current_event_count fast_player"
    "0 \<le> millis_per_tick fast_player" "millis_per_tick fast_player \<le> 65536"
    using h2 by blast+
  show ?thesis
    by (intro conjI h1' h2' m c d)
qed

subsection \<open>C8: the note frequencies\<close>

text \<open>
  C8: on the note numbers 1 to 127 \<open>midiNoteToFrequency\<close> is strictly increasing, and
  \<open>midiNoteToFrequency 69\<close> is 440. (The frequencies are the real numbers the floats
  stand for, see the numeric conventions; by \<open>frequency_order_robust\<close> the order is kept
  by every function within one percent of them.)
\<close>

theorem C8_frequency_monotone:
  "(\<forall>m n. 1 \<le> m \<and> m < n \<and> n \<le> 127 \<longrightarrow> midiNoteToFrequency m < midiNoteToFrequency n) \<and>
   midiNoteToFrequency 69 = 440"
proof (intro conjI allI impI)
  fix m n :: int
  assume a: "1 \<le> m \<and> m < n \<and> n \<le> 127"
  then have "real_of_int (m - 69) / 12 < real_of_int (n - 69) / 12" by simp
  then have "(2::real) powr (real_of_int (m - 69) / 12) < 2 powr (real_of_int (n - 69) / 12)"
    by (intro powr_less_mono) simp_all
  then show "midiNoteToFrequency m < midiNoteToFrequency n"
    using a by (simp add: midiNoteToFrequency_def)
next
  show "midiNoteToFrequency 69 = 440"
    by (simp add: midiNoteToFrequency_def)
qed

theorem C8_frequency_monotone_witness:
  "(1::int) \<le> 60 \<and> (60::int) < 61 \<and> (61::int) \<le> 127 \<and>
   midiNoteToFrequency 60 < midiNoteToFrequency 61 \<and> midiNoteToFrequency 69 = 440"
  using C8_frequency_monotone by simp

subsection \<open>C9: what deactivating a voice does to its output\<close>

text \<open>
  C9 as stated: every operation that deactivates a voice zeroes its \<open>currentOutput\<close>.
  Only \<open>stopNote\<close> does. In the table \<open>retrigger_table\<close>, reached by note-on 60, note-on 62,
  note-off 60, a second note-on for note 62 releases slot 1 and starts the new voice in the
  free slot 0: slot 1 is inactive afterwards and still holds the output 12598.
\<close>

theorem C9_counterexample:
  "run_calls [StartNote 60 100, StartNote 62 100, StopNote 60] = retrigger_table \<and>
   isActive (retrigger_table ! 1) \<and>
   \<not> isActive (fst (startNote 62 100 retrigger_table) ! 1) \<and>
   currentOutput (fst (startNote 62 100 retrigger_table) ! 1) = 12598"
proof -
  have "isActive (retrigger_table ! 1)" and "currentOutput (retrigger_table ! 1) = 12598"
    by (simp_all add: retrigger_table_def velocityToAmplitude_100)
  then show ?thesis
    by (simp only: retrigger_table_reachable retrigger_table_slot) simp
qed

text \<open>
  C9 (amended): a note-off deactivates the voice that plays the note and zeroes its
  \<open>currentOutput\<close> at once. Whatever slot is inactive after a \<open>stopNote\<close> or a
  \<open>startNote\<close> (released by a re-trigger, or claimed and rejected for invalid
  parameters) contributes silence to the very next mix: the sample of the next render
  iteration is the one emitted with that slot's output set to zero, because the render
  loop skips inactive slots.
\<close>

theorem C9_deactivated_voice_is_silent:
  assumes "length voices = SYNTH_MAX_VOICES" and "i < SYNTH_MAX_VOICES"
  shows "(findVoicePlayingNote_unsafe voices n = Some i \<longrightarrow>
            \<not> isActive (stopNote n voices ! i) \<and> currentOutput (stopNote n voices ! i) = 0) \<and>
         (\<not> isActive (stopNote n voices ! i) \<longrightarrow>
            snd (audioTaskRunner_iteration (stopNote n voices)) =
            snd (audioTaskRunner_iteration
                   ((stopNote n voices)[i := (stopNote n voices ! i)\<lparr>currentOutput := 0\<rparr>]))) \<and>
         (\<not> isActive (fst (startNote n v voices) ! i) \<longrightarrow>
            snd (audioTaskRunner_iteration (fst (startNote n v voices))) =
            snd (audioTaskRunner_iteration
                   ((fst (startNote n v voices))
                      [i := (fst (startNote n v voices) ! i)\<lparr>currentOutput := 0\<rparr>])))"
proof (intro conjI impI)
  assume "findVoicePlayingNote_unsafe voices n = Some i"
  then show "\<not> isActive (stopNote n voices ! i)" and "currentOutput (stopNote n voices ! i) = 0"
    using assms by (simp_all add: stopNote_nth)
next
  assume "\<not> isActive (stopNote n voices ! i)"
  then show "snd (audioTaskRunner_iteration (stopNote n voices)) =
      snd (audioTaskRunner_iteration
             ((stopNote n voices)[i := (stopNote n voices ! i)\<lparr>currentOutput := 0\<rparr>]))"
    using assms audioTaskRunner_iteration_ignores_inactive [of "stopNote n voices" i 0]
    by simp
next
  assume "\<not> isActive (fst (startNote n v voices) ! i)"
  then show "snd (audioTaskRunner_iteration (fst (startNote n v voices))) =
      snd (audioTaskRunner_iteration
             ((fst (startNote n v voices))
                [i := (fst (startNote n v voices) ! i)\<lparr>currentOutput := 0\<rparr>]))"
    using assms audioTaskRunner_iteration_ignores_inactive [of "fst (startNote n v voices)" i 0]
    by simp
qed

theorem C9_deactivated_voice_is_silent_witness:
  "length retrigger_table = SYNTH_MAX_VOICES \<and> (1::nat) < SYNTH_MAX_VOICES \<and>
   findVoicePlayingNote_unsafe retrigger_table 62 = Some 1 \<and>
   \<not> isActive (stopNote 62 retrigger_table ! 1) \<and>
   currentOutput (stopNote 62 retrigger_table ! 1) = 0 \<and>
   \<not> isActive (fst (startNote 62 100 retrigger_table) ! 1) \<and>
   snd (audioTaskRunner_iteration (fst (startNote 62 100 retrigger_table))) =
   snd (audioTaskRunner_iteration
          ((fst (startNote 62 100 retrigger_table))
             [1 := (fst (startNote 62 100 retrigger_table) ! 1)\<lparr>currentOutput := 0\<rparr>]))"
proof -
  have len: "length retrigger_table = SYNTH_MAX_VOICES" by (simp add: retrigger_table_def)
  have off: "\<not> isActive (fst (startNote 62 100 retrigger_table) ! 1)"
    by (simp only: retrigger_table_slot) simp
  show ?thesis
    using C9_deactivated_voice_is_silent [OF len, of 1 62 100] retrigger_table_player off len
    by simp
qed

subsection \<open>C10: events of unknown kind\<close>

text \<open>
  C10: when \<open>update\<close> processes an event whose kind byte is neither 0 nor 1, the voice
  table is left as it is (no \<open>startNote\<close>, no \<open>stopNote\<close>), the event index still
  advances by one, and the deadline is still set from the delta time of the following
  event, relative to the time of this call, if an event follows (it keeps its value after
  the last event). The player keeps playing.
\<close>

theorem C10_unknown_kind_skipped:
  assumes "is_playing p" and "next_event_time_ms p \<le> now"
    and "current_event_index p < current_event_count p"
    and "flash (current_event_address p + 2) \<noteq> 0"
    and "flash (current_event_address p + 2) \<noteq> 1"
  shows "update flash now p voices =
     (True,
      p\<lparr>current_event_index := current_event_index p + 1,
        next_event_time_ms :=
          (if current_event_index p + 1 < current_event_count p
           then now + convertTicksToMillis
                        (pgm_read_uint16_big_endian flash
                           (current_song_data_ptr p +
                            ucast (current_event_index p + 1) * of_nat BYTES_PER_EVENT)) p
           else next_event_time_ms p)\<rparr>,
      voices)"
proof -
  have "update flash now p voices =
     (True,
      scheduleNextEvent flash now (p\<lparr>current_event_index := current_event_index p + 1\<rparr>),
      processCurrentEvent flash p voices)"
    using assms(1-3) by (rule update_processes)
  then show ?thesis
    using assms(4,5)
    by (simp add: processCurrentEvent_unknown_kind scheduleNextEvent_def Let_def
        convertTicksToMillis_def current_event_address_def)
qed

theorem C10_unknown_kind_skipped_witness:
  "is_playing example_player \<and> next_event_time_ms example_player \<le> 1500 \<and>
   current_event_index example_player < current_event_count example_player \<and>
   unknown_kind_flash (current_event_address example_player + 2) = 2 \<and>
   update unknown_kind_flash 1500 example_player one_voice_table =
     (True, example_player\<lparr>current_event_index := 1, next_event_time_ms := 1750\<rparr>, one_voice_table)"
proof -
  have "convertTicksToMillis 48 example_player = 250"
    by (rule delays_120) (simp add: example_player_def)
  then show ?thesis
    using C10_unknown_kind_skipped [of example_player 1500 unknown_kind_flash one_voice_table]
    by (simp add: example_player_def unknown_kind_flash_def example_flash_def
        current_event_address_def pgm_read_uint16_big_endian_def)
qed

end
